theory Spec2Isabelle
  imports Main "HOL-Library.Word" "HOL-Library.FSet"
begin

section \<open>Burner Chat server: the room registry and its event handlers\<close>

text \<open>
  A shallow embedding of \<^verbatim>\<open>src/index.js\<close>: the in-memory room store
  (\<^verbatim>\<open>rooms\<close>, a Map from room identifier to a room object), the per-socket
  \<^verbatim>\<open>userData\<close>, and the three Socket.io handlers \<^verbatim>\<open>join_room\<close>,
  \<^verbatim>\<open>send_message\<close> and \<^verbatim>\<open>disconnect\<close>, together with the callback that
  the disconnect handler hands to \<^verbatim>\<open>setTimeout\<close>.

  Conventions of the embedding.
  \<^item> A JavaScript string is a list of UTF-16 code units (\<open>16 word\<close>), so that
    \<^verbatim>\<open>length\<close>, \<^verbatim>\<open>substring\<close> and \<^verbatim>\<open>trim\<close> count what JavaScript counts.
  \<^item> The payload of \<^verbatim>\<open>join_room\<close> has the types of the documented interface: a bare
    string or an object \<^verbatim>\<open>{ roomId: string, username?: string }\<close>; an absent, undefined
    or null field is \<open>None\<close>. The payload of \<^verbatim>\<open>send_message\<close> is any value a client can
    emit, or none at all; where the handler raises on it, the exception is an outcome of
    the model.
  \<^item> A string is falsy exactly when it is empty, so a test \<^verbatim>\<open>if (s)\<close> on a
    string-or-null is \<open>s \<noteq> None\<close> and \<open>s \<noteq> Some []\<close>.
  \<^item> Nothing in \<^verbatim>\<open>index.js\<close> catches an exception. One that a handler raises ends the Node
    process, so a run of the server stops at the first error and reaches no state after
    it.
  \<^item> The handlers mutate shared objects; the model passes the whole server state and
    returns it updated, together with the list of calls made into the transport
    (\<^verbatim>\<open>socket.leave\<close>, \<^verbatim>\<open>socket.join\<close>, and the three kinds of \<^verbatim>\<open>emit\<close>) in
    program order. \<^verbatim>\<open>console.log\<close> is left out.
  \<^item> What the runtime supplies from outside is an argument of the handler: the string
    \<^verbatim>\<open>Math.random().toString(36)\<close>, the clock reading of \<^verbatim>\<open>new Date()\<close> and
    the result of \<^verbatim>\<open>uuidv4()\<close>.
  \<^item> Real time is not modelled. A timer set by \<^verbatim>\<open>setTimeout\<close> is an entry of the
    queue \<open>timers\<close>; its firing is an event of its own that may come at any later point.
    All timers have the same delay, so they fire in the order they were set.
\<close>

subsection \<open>JavaScript strings\<close>

type_synonym jschar = "16 word"
type_synonym jsstring = "jschar list"

definition js :: "string \<Rightarrow> jsstring" where
  "js s = map of_char s"

text \<open>WhiteSpace and LineTerminator code points of ECMAScript, all in the basic plane.\<close>

definition is_ws :: "jschar \<Rightarrow> bool" where
  "is_ws c \<longleftrightarrow>
     c \<in> {0x0009, 0x000A, 0x000B, 0x000C, 0x000D, 0x0020, 0x00A0, 0x1680,
          0x2028, 0x2029, 0x202F, 0x205F, 0x3000, 0xFEFF}
     \<or> (0x2000 \<le> c \<and> c \<le> 0x200A)"

definition trim :: "jsstring \<Rightarrow> jsstring" where
  "trim s = rev (dropWhile is_ws (rev (dropWhile is_ws s)))"

text \<open>\<^verbatim>\<open>s.substring(a, b)\<close> for non-negative integer arguments: both are clamped to
  the length and swapped when out of order.\<close>

definition substring :: "jsstring \<Rightarrow> nat \<Rightarrow> nat \<Rightarrow> jsstring" where
  "substring s a b =
     (let n = length s; a' = min a n; b' = min b n;
          lo = min a' b'; hi = max a' b'
      in take (hi - lo) (drop lo s))"

text \<open>A string-or-null inside a template literal.\<close>

fun template :: "jsstring option \<Rightarrow> jsstring" where
  "template None = js ''null''"
| "template (Some s) = s"

definition is_lower_alnum :: "jschar \<Rightarrow> bool" where
  "is_lower_alnum c \<longleftrightarrow> (0x30 \<le> c \<and> c \<le> 0x39) \<or> (0x61 \<le> c \<and> c \<le> 0x7A)"

text \<open>The shape of \<^verbatim>\<open>x.toString(36)\<close> for a number \<open>0 \<le> x < 1\<close>: the string
  \<^verbatim>\<open>0\<close>, or \<^verbatim>\<open>0.\<close> followed by at least one base-36 digit. Radix 36 never uses
  exponent notation.\<close>

fun base36_fraction :: "jsstring \<Rightarrow> bool" where
  "base36_fraction [] = False"
| "base36_fraction [c] = (c = 0x30)"
| "base36_fraction (c # d # ds) = (c = 0x30 \<and> d = 0x2E \<and> ds \<noteq> [] \<and> list_all is_lower_alnum ds)"

subsection \<open>Data model\<close>

type_synonym conn_id = jsstring
type_synonym room_id = jsstring

record message_obj =
  msg_id :: jsstring
  sender :: "jsstring option"
  senderId :: conn_id
  message :: jsstring
  timestamp :: nat

record room =
  users :: "conn_id fset"
  messages :: "message_obj list"
  createdAt :: nat

record user_data =
  username :: "jsstring option"
  currentRoom :: "room_id option"

record server_state =
  rooms :: "room_id \<rightharpoonup> room"
  sockets :: "conn_id \<rightharpoonup> user_data"
  timers :: "room_id list"

datatype join_data =
  RoomIdOnly room_id
| JoinObject room_id "jsstring option"

text \<open>What \<^verbatim>\<open>const { message } = data\<close> finds in the payload of \<^verbatim>\<open>send_message\<close>.
  \<open>NoPayload\<close>: the event came with no argument or with \<^verbatim>\<open>null\<close>. \<open>Payload f\<close>: any
  other value, where \<open>f\<close> is its \<^verbatim>\<open>message\<close> property: \<open>NoMessage\<close> when that is
  undefined or null, \<open>MessageText\<close> when it is a string, \<open>MessageOther\<close> when it is
  anything else (a number, a boolean, an array, an object).\<close>

datatype message_field = NoMessage | MessageText jsstring | MessageOther

datatype send_data = NoPayload | Payload message_field

datatype error = TypeError

datatype activity = JoinActivity | LeaveActivity

datatype out_event =
  user_joined jsstring nat
| user_activity activity jsstring nat
| receive_message message_obj

datatype target =
  ToSocket conn_id
| ToRoomExcept room_id conn_id
| ToRoom room_id

datatype effect =
  SocketLeave conn_id room_id
| SocketJoin conn_id room_id
| Emit target out_event

definition init_state :: server_state where
  "init_state = \<lparr>rooms = Map.empty, sockets = Map.empty, timers = []\<rparr>"

subsection \<open>Room store helpers\<close>

text \<open>\<^verbatim>\<open>getOrCreateRoom\<close>: the store after the call and the room it returns.\<close>

definition getOrCreateRoom :: "room_id \<Rightarrow> nat \<Rightarrow> (room_id \<rightharpoonup> room) \<Rightarrow> (room_id \<rightharpoonup> room) \<times> room" where
  "getOrCreateRoom roomId now rs =
     (case rs roomId of
        None \<Rightarrow>
          (let r = \<lparr>users = {||}, messages = [], createdAt = now\<rparr>
           in (rs(roomId \<mapsto> r), r))
      | Some r \<Rightarrow> (rs, r))"

text \<open>\<^verbatim>\<open>generateUsername\<close>; the argument is \<^verbatim>\<open>Math.random().toString(36)\<close>.\<close>

definition generateUsername :: "jsstring \<Rightarrow> jsstring" where
  "generateUsername rnd = js ''Anon-'' @ substring rnd 2 6"

subsection \<open>The handlers\<close>

definition roomId_of :: "join_data \<Rightarrow> room_id" where
  "roomId_of d = (case d of RoomIdOnly r \<Rightarrow> r | JoinObject r u \<Rightarrow> r)"

definition customUsername_of :: "join_data \<Rightarrow> jsstring option" where
  "customUsername_of d = (case d of RoomIdOnly r \<Rightarrow> None | JoinObject r u \<Rightarrow> u)"

definition resolve_username :: "jsstring option \<Rightarrow> jsstring \<Rightarrow> jsstring" where
  "resolve_username customUsername rnd =
     (case customUsername of
        None \<Rightarrow> generateUsername rnd
      | Some u \<Rightarrow>
          if u \<noteq> [] \<and> trim u \<noteq> [] then substring (trim u) 0 20
          else generateUsername rnd)"

text \<open>The block under \<^verbatim>\<open>// Leave previous room if any\<close>.\<close>

definition leave_previous ::
  "conn_id \<Rightarrow> room_id option \<Rightarrow> (room_id \<rightharpoonup> room) \<Rightarrow> (room_id \<rightharpoonup> room) \<times> effect list" where
  "leave_previous c cur rs =
     (case cur of
        None \<Rightarrow> (rs, [])
      | Some prev \<Rightarrow>
          if prev \<noteq> [] then
            (case rs prev of
               None \<Rightarrow> (rs, [SocketLeave c prev])
             | Some prevRoom \<Rightarrow>
                 (rs(prev \<mapsto> prevRoom\<lparr>users := users prevRoom |-| {|c|}\<rparr>),
                  [SocketLeave c prev]))
          else (rs, []))"

definition join_room ::
  "conn_id \<Rightarrow> join_data \<Rightarrow> jsstring \<Rightarrow> nat \<Rightarrow> server_state \<Rightarrow> server_state \<times> effect list" where
  "join_room c d rnd now st =
     (case sockets st c of
        None \<Rightarrow> (st, [])
      | Some ud \<Rightarrow>
          (let roomId = roomId_of d;
               name = resolve_username (customUsername_of d) rnd;
               (rs1, left) = leave_previous c (currentRoom ud) (rooms st);
               ud' = \<lparr>username = Some name, currentRoom = Some roomId\<rparr>;
               (rs2, r) = getOrCreateRoom roomId now rs1;
               r' = r\<lparr>users := finsert c (users r)\<rparr>;
               userCount = fcard (users r')
           in (st\<lparr>rooms := rs2(roomId \<mapsto> r'), sockets := (sockets st)(c \<mapsto> ud')\<rparr>,
               left @
               [SocketJoin c roomId,
                Emit (ToSocket c) (user_joined name userCount),
                Emit (ToRoomExcept roomId c)
                  (user_activity JoinActivity (name @ js '' joined the chat'') userCount)])))"

text \<open>\<^verbatim>\<open>send_message\<close>. The destructuring of line 151 raises on an absent payload before
  anything else is read. In \<^verbatim>\<open>!roomId || !message?.trim()\<close> the right operand is only
  evaluated when the room is truthy; there \<^verbatim>\<open>?.\<close> lets an undefined or null message
  through, and a message of another type than string has no \<^verbatim>\<open>trim\<close> to call.\<close>

definition send_message ::
  "conn_id \<Rightarrow> send_data \<Rightarrow> jsstring \<Rightarrow> nat \<Rightarrow> server_state \<Rightarrow>
     error + server_state \<times> effect list" where
  "send_message c data uuid now st =
     (case sockets st c of
        None \<Rightarrow> Inr (st, [])
      | Some ud \<Rightarrow>
          (case data of
             NoPayload \<Rightarrow> Inl TypeError
           | Payload msg \<Rightarrow>
               (case currentRoom ud of
                  None \<Rightarrow> Inr (st, [])
                | Some roomId \<Rightarrow>
                    if roomId = [] then Inr (st, [])
                    else
                      (case msg of
                         NoMessage \<Rightarrow> Inr (st, [])
                       | MessageOther \<Rightarrow> Inl TypeError
                       | MessageText m \<Rightarrow>
                           if trim m = [] then Inr (st, [])
                           else
                             (case rooms st roomId of
                                None \<Rightarrow> Inr (st, [])
                              | Some r \<Rightarrow>
                                  (let messageObj =
                                         \<lparr>msg_id = uuid, sender = username ud, senderId = c,
                                          message = trim m, timestamp = now\<rparr>;
                                       pushed = messages r @ [messageObj];
                                       kept = (if length pushed > 100 then tl pushed else pushed)
                                   in Inr (st\<lparr>rooms := (rooms st)(roomId \<mapsto> r\<lparr>messages := kept\<rparr>)\<rparr>,
                                           [Emit (ToRoom roomId) (receive_message messageObj)])))))))"

text \<open>The callback given to \<^verbatim>\<open>setTimeout\<close> in the disconnect handler.\<close>

definition reap :: "room_id \<Rightarrow> server_state \<Rightarrow> server_state" where
  "reap roomId st =
     (case rooms st roomId of
        None \<Rightarrow> st
      | Some currentRoom' \<Rightarrow>
          if fcard (users currentRoom') = 0 then st\<lparr>rooms := (rooms st)(roomId := None)\<rparr>
          else st)"

definition disconnect :: "conn_id \<Rightarrow> server_state \<Rightarrow> server_state \<times> effect list" where
  "disconnect c st =
     (case sockets st c of
        None \<Rightarrow> (st, [])
      | Some ud \<Rightarrow>
          (case currentRoom ud of
             None \<Rightarrow> (st, [])
           | Some roomId \<Rightarrow>
               if roomId = [] then (st, [])
               else
                 (case rooms st roomId of
                    None \<Rightarrow> (st, [])
                  | Some r \<Rightarrow>
                      (let r' = r\<lparr>users := users r |-| {|c|}\<rparr>;
                           st1 = st\<lparr>rooms := (rooms st)(roomId \<mapsto> r')\<rparr>;
                           out = [Emit (ToRoomExcept roomId c)
                                    (user_activity LeaveActivity
                                       (template (username ud) @ js '' left the chat'')
                                       (fcard (users r')))]
                       in if fcard (users r') = 0
                          then (st1\<lparr>timers := timers st1 @ [roomId]\<rparr>, out)
                          else (st1, out)))))"

subsection \<open>The server as a transition system\<close>

text \<open>\<^verbatim>\<open>io.on('connection', ...)\<close> gives the new socket its \<^verbatim>\<open>userData\<close>.\<close>

definition connection :: "conn_id \<Rightarrow> server_state \<Rightarrow> server_state" where
  "connection c st =
     st\<lparr>sockets := (sockets st)(c \<mapsto> \<lparr>username = None, currentRoom = None\<rparr>)\<rparr>"

text \<open>The oldest pending timer fires.\<close>

definition timer_fires :: "server_state \<Rightarrow> server_state" where
  "timer_fires st =
     (case timers st of
        [] \<Rightarrow> st
      | roomId # rest \<Rightarrow> reap roomId (st\<lparr>timers := rest\<rparr>))"

datatype event =
  Connection conn_id
| JoinRoom conn_id join_data jsstring nat
| SendMessage conn_id send_data jsstring nat
| Disconnect conn_id
| TimerFires

text \<open>A socket identifier is never handed out twice while its socket is connected.\<close>

definition connection_event :: "conn_id \<Rightarrow> server_state \<Rightarrow> server_state \<times> effect list" where
  "connection_event c st =
     (case sockets st c of None \<Rightarrow> (connection c st, []) | Some ud \<Rightarrow> (st, []))"

text \<open>The disconnect handler runs, and then the socket is gone.\<close>

definition disconnect_event :: "conn_id \<Rightarrow> server_state \<Rightarrow> server_state \<times> effect list" where
  "disconnect_event c st =
     (let (st', out) = disconnect c st in (st'\<lparr>sockets := (sockets st')(c := None)\<rparr>, out))"

text \<open>One event: the state and the transport calls it leaves, or the exception it raises.\<close>

fun step :: "event \<Rightarrow> server_state \<Rightarrow> error + server_state \<times> effect list" where
  "step (Connection c) st = Inr (connection_event c st)"
| "step (JoinRoom c d rnd now) st = Inr (join_room c d rnd now st)"
| "step (SendMessage c data uuid now) st = send_message c data uuid now st"
| "step (Disconnect c) st = Inr (disconnect_event c st)"
| "step TimerFires st = Inr (timer_fires st, [])"

text \<open>A run from a state: the state it reaches, or the error that ended it.\<close>

fun exec :: "event list \<Rightarrow> server_state \<Rightarrow> error + server_state" where
  "exec [] st = Inr st"
| "exec (e # es) st =
     (case step e st of
        Inl err \<Rightarrow> Inl err
      | Inr (st', out) \<Rightarrow> exec es st')"

subsection \<open>Derived notions used in the statements\<close>

text \<open>The state an event leaves; where the event raises, the state in which it did.\<close>

definition next_state :: "event \<Rightarrow> server_state \<Rightarrow> server_state" where
  "next_state e st = (case step e st of Inl err \<Rightarrow> st | Inr (st', out) \<Rightarrow> st')"

text \<open>The \<^verbatim>\<open>emit\<close> calls among the transport calls, in order.\<close>

fun emitted :: "effect list \<Rightarrow> (target \<times> out_event) list" where
  "emitted [] = []"
| "emitted (Emit t e # xs) = (t, e) # emitted xs"
| "emitted (x # xs) = emitted xs"

text \<open>The object that \<^verbatim>\<open>room\<close> refers to in \<^verbatim>\<open>join_room\<close> once
  \<^verbatim>\<open>room.users.add(socket.id)\<close> has run.\<close>

definition joined_room :: "conn_id \<Rightarrow> room_id \<Rightarrow> nat \<Rightarrow> user_data \<Rightarrow> server_state \<Rightarrow> room" where
  "joined_room c k now ud st =
     (let r = snd (getOrCreateRoom k now (fst (leave_previous c (currentRoom ud) (rooms st))))
      in r\<lparr>users := finsert c (users r)\<rparr>)"

text \<open>Every room of the store holds at most 100 messages.\<close>

definition msgs_bounded :: "server_state \<Rightarrow> bool" where
  "msgs_bounded st \<longleftrightarrow> (\<forall>r rm. rooms st r = Some rm \<longrightarrow> length (messages rm) \<le> 100)"

text \<open>A connected socket whose recorded room is a non-empty identifier is a member
  of that room in the store.\<close>

definition session_inv :: "server_state \<Rightarrow> bool" where
  "session_inv st \<longleftrightarrow>
     (\<forall>c ud r. sockets st c = Some ud \<and> currentRoom ud = Some r \<and> r \<noteq> [] \<longrightarrow>
        (\<exists>rm. rooms st r = Some rm \<and> c |\<in>| users rm))"

text \<open>What a run from the empty server leaves, when no event of it raises: a room of
  the store, the queue of pending timers, the data of a socket.\<close>

definition room_after :: "event list \<Rightarrow> room_id \<Rightarrow> error + room option" where
  "room_after es r = (case exec es init_state of Inl err \<Rightarrow> Inl err | Inr st \<Rightarrow> Inr (rooms st r))"

definition timers_after :: "event list \<Rightarrow> error + room_id list" where
  "timers_after es = (case exec es init_state of Inl err \<Rightarrow> Inl err | Inr st \<Rightarrow> Inr (timers st))"

definition session_after :: "event list \<Rightarrow> conn_id \<Rightarrow> error + user_data option" where
  "session_after es c = (case exec es init_state of Inl err \<Rightarrow> Inl err | Inr st \<Rightarrow> Inr (sockets st c))"


text \<open>Socket \<open>c\<close> is a member of room \<open>R\<close> of the store.\<close>

definition member_of :: "conn_id \<Rightarrow> room_id \<Rightarrow> server_state \<Rightarrow> bool" where
  "member_of c R st \<longleftrightarrow> (\<exists>rm. rooms st R = Some rm \<and> c |\<in>| users rm)"

text \<open>No socket disconnects in the run after it has joined room \<open>R\<close> in the run; the
  sockets of \<open>J\<close> count as having joined already.\<close>

fun no_leaver :: "room_id \<Rightarrow> conn_id list \<Rightarrow> event list \<Rightarrow> bool" where
  "no_leaver R J [] = True"
| "no_leaver R J (JoinRoom c d rnd now # es) =
     no_leaver R (if roomId_of d = R then c # J else J) es"
| "no_leaver R J (Disconnect c # es) = (c \<notin> set J \<and> no_leaver R J es)"
| "no_leaver R J (e # es) = no_leaver R J es"

text \<open>Room \<open>R\<close> is in the store, no timer is pending for it, and the sockets that
  record it are among \<open>J\<close>.\<close>

definition kept_room :: "room_id \<Rightarrow> conn_id list \<Rightarrow> server_state \<Rightarrow> bool" where
  "kept_room R J st \<longleftrightarrow>
     rooms st R \<noteq> None \<and> R \<notin> set (timers st) \<and>
     (\<forall>c ud. sockets st c = Some ud \<and> currentRoom ud = Some R \<longrightarrow> c \<in> set J)"

text \<open>No socket records room \<open>R\<close>, and the room is gone from the store, or it is there
  without a member and a timer is pending for it.\<close>

definition doomed_room :: "room_id \<Rightarrow> server_state \<Rightarrow> bool" where
  "doomed_room R st \<longleftrightarrow>
     (\<forall>c ud. sockets st c = Some ud \<longrightarrow> currentRoom ud \<noteq> Some R) \<and>
     (rooms st R = None \<or>
      (R \<in> set (timers st) \<and> (\<exists>rm. rooms st R = Some rm \<and> users rm = {||})))"

text \<open>The event is a \<^verbatim>\<open>join_room\<close> that names room \<open>R\<close>.\<close>

fun joins :: "room_id \<Rightarrow> event \<Rightarrow> bool" where
  "joins R (JoinRoom c d rnd now) = (roomId_of d = R)"
| "joins R e = False"

text \<open>Room \<open>R\<close> is in the store with no member, no timer is pending for it, and no
  connected socket records it as its room.\<close>

definition idle_room :: "room_id \<Rightarrow> server_state \<Rightarrow> bool" where
  "idle_room R st \<longleftrightarrow>
     (\<exists>rm. rooms st R = Some rm \<and> users rm = {||}) \<and> R \<notin> set (timers st) \<and>
     (R \<noteq> [] \<longrightarrow> (\<forall>c ud. sockets st c = Some ud \<longrightarrow> currentRoom ud \<noteq> Some R))"

text \<open>No socket records the empty string as its room, and every member of a room of
  the store is a connected socket that records this room.\<close>

definition one_room_inv :: "server_state \<Rightarrow> bool" where
  "one_room_inv st \<longleftrightarrow>
     (\<forall>c ud. sockets st c = Some ud \<longrightarrow> currentRoom ud \<noteq> Some []) \<and>
     (\<forall>c r rm. rooms st r = Some rm \<and> c |\<in>| users rm \<longrightarrow>
        (\<exists>ud. sockets st c = Some ud \<and> currentRoom ud = Some r))"

subsection \<open>Concrete scenarios\<close>

definition sock_a :: conn_id where "sock_a = js ''sockA''"
definition sock_b :: conn_id where "sock_b = js ''sockB''"
definition lobby :: room_id where "lobby = js ''lobby''"
definition den :: room_id where "den = js ''den''"
definition rnd_sample :: jsstring where "rnd_sample = js ''0.k3x9p2m1''"

text \<open>A socket joins the room named by the empty string and then the lobby.\<close>

definition empty_id_trace :: "event list" where
  "empty_id_trace =
     [Connection sock_a,
      JoinRoom sock_a (RoomIdOnly []) rnd_sample 1,
      JoinRoom sock_a (RoomIdOnly lobby) rnd_sample 2]"

text \<open>The lobby is emptied by a disconnect, which sets a timer; a second socket joins
  it while the timer is pending and then switches to another room.\<close>

definition switch_trace :: "event list" where
  "switch_trace =
     [Connection sock_a, Connection sock_b,
      JoinRoom sock_a (RoomIdOnly lobby) rnd_sample 1,
      Disconnect sock_a,
      JoinRoom sock_b (RoomIdOnly lobby) rnd_sample 2,
      JoinRoom sock_b (RoomIdOnly den) rnd_sample 3]"

text \<open>One socket alone in the lobby; and what may follow once it has switched to
  another room: events of both sockets and timer firings, none of them a join to the
  lobby.\<close>

definition alone_in_lobby :: "event list" where
  "alone_in_lobby = [Connection sock_a, JoinRoom sock_a (RoomIdOnly lobby) rnd_sample 1]"

definition alone_state :: server_state where
  "alone_state =
     \<lparr>rooms = [lobby \<mapsto> \<lparr>users = {|sock_a|}, messages = [], createdAt = 1\<rparr>],
      sockets = [sock_a \<mapsto> \<lparr>username = Some (js ''Anon-k3x9''), currentRoom = Some lobby\<rparr>],
      timers = []\<rparr>"

definition after_switch :: "event list" where
  "after_switch =
     [SendMessage sock_a (Payload (MessageText (js ''hi''))) (js ''id-1'') 3,
      TimerFires,
      Connection sock_b,
      JoinRoom sock_b (JoinObject den (Some (js ''Bob''))) rnd_sample 4,
      Disconnect sock_b,
      TimerFires,
      JoinRoom sock_a (RoomIdOnly lobby) rnd_sample 5]"

text \<open>The state before the last event of \<open>switch_trace\<close>: the second socket alone in the
  lobby, the timer of the first disconnect still pending.\<close>

definition pending_switch_state :: server_state where
  "pending_switch_state =
     \<lparr>rooms = [lobby \<mapsto> \<lparr>users = {|sock_b|}, messages = [], createdAt = 1\<rparr>],
      sockets = [sock_b \<mapsto> \<lparr>username = Some (js ''Anon-k3x9''), currentRoom = Some lobby\<rparr>],
      timers = [lobby]\<rparr>"



text \<open>A socket in the room named by the empty string.\<close>

definition in_empty_room :: "event list" where
  "in_empty_room = [Connection sock_a, JoinRoom sock_a (RoomIdOnly []) rnd_sample 1]"

definition empty_room_state :: server_state where
  "empty_room_state =
     \<lparr>rooms = [[] \<mapsto> \<lparr>users = {|sock_a|}, messages = [], createdAt = 1\<rparr>],
      sockets = [sock_a \<mapsto> \<lparr>username = Some (js ''Anon-k3x9''), currentRoom = Some []\<rparr>],
      timers = []\<rparr>"

text \<open>A lobby that holds 100 messages, with its one member.\<close>

definition old_msg :: message_obj where
  "old_msg = \<lparr>msg_id = js ''id-0'', sender = Some (js ''Alice''), senderId = sock_a,
               message = js ''old'', timestamp = 0\<rparr>"

definition alice_data :: user_data where
  "alice_data = \<lparr>username = Some (js ''Alice''), currentRoom = Some lobby\<rparr>"

definition full_room :: room where
  "full_room = \<lparr>users = {|sock_a|}, messages = replicate 100 old_msg, createdAt = 0\<rparr>"

definition full_state :: server_state where
  "full_state = \<lparr>rooms = [lobby \<mapsto> full_room], sockets = [sock_a \<mapsto> alice_data], timers = []\<rparr>"

text \<open>A state in which the recorded room of a socket is not in the store.\<close>

definition orphan_state :: server_state where
  "orphan_state = \<lparr>rooms = Map.empty, sockets = [sock_a \<mapsto> alice_data], timers = []\<rparr>"

text \<open>An empty lobby with two reap timers pending for it.\<close>

definition pending_state :: server_state where
  "pending_state =
     \<lparr>rooms = [lobby \<mapsto> \<lparr>users = {||}, messages = [], createdAt = 0\<rparr>],
      sockets = [sock_b \<mapsto> \<lparr>username = None, currentRoom = None\<rparr>],
      timers = [lobby, lobby]\<rparr>"

text \<open>One message sent in the lobby, and the room it leaves in the store.\<close>

definition chat_trace :: "event list" where
  "chat_trace = alone_in_lobby @ [SendMessage sock_a (Payload (MessageText (js '' hi ''))) (js ''id-1'') 2]"

definition chat_room :: room where
  "chat_room =
     \<lparr>users = {|sock_a|},
      messages = [\<lparr>msg_id = js ''id-1'', sender = Some (js ''Anon-k3x9''), senderId = sock_a,
                   message = js ''hi'', timestamp = 2\<rparr>],
      createdAt = 1\<rparr>"

definition new_msg :: message_obj where
  "new_msg = \<lparr>msg_id = js ''id-1'', sender = Some (js ''Alice''), senderId = sock_a,
               message = js ''hi'', timestamp = 2\<rparr>"

definition chat_state :: server_state where
  "chat_state =
     \<lparr>rooms = [lobby \<mapsto> chat_room],
      sockets = [sock_a \<mapsto> \<lparr>username = Some (js ''Anon-k3x9''), currentRoom = Some lobby\<rparr>],
      timers = []\<rparr>"

section \<open>Facts about the handlers\<close>

subsection \<open>Strings\<close>

lemma substring_0: "substring s 0 n = take n s"
  by (simp add: substring_def Let_def min_def max_def)

lemma substring_2_6: "substring s 2 6 = take 4 (drop 2 s)"
  by (auto simp add: substring_def Let_def min_def max_def)

subsection \<open>The state and the transport calls of a join\<close>

text \<open>The handler in closed form, for a connected socket: the store after the leave block,
  updated at the joined room.\<close>

lemma leave_previous_rooms:
  "fst (leave_previous c cur rs) k =
     (if cur = Some k \<and> k \<noteq> [] then map_option (\<lambda>r. r\<lparr>users := users r |-| {|c|}\<rparr>) (rs k) else rs k)"
  by (auto simp add: leave_previous_def split: option.splits)

lemma getOrCreateRoom_snd:
  "snd (getOrCreateRoom k now rs) = (case rs k of None \<Rightarrow> \<lparr>users = {||}, messages = [], createdAt = now\<rparr> | Some r \<Rightarrow> r)"
  by (simp add: getOrCreateRoom_def Let_def split: option.splits)

lemma join_room_state:
  assumes "sockets st c = Some ud"
  shows "fst (join_room c d rnd now st) =
     st\<lparr>rooms := (fst (leave_previous c (currentRoom ud) (rooms st)))(roomId_of d \<mapsto> joined_room c (roomId_of d) now ud st),
        sockets := (sockets st)(c \<mapsto> \<lparr>username = Some (resolve_username (customUsername_of d) rnd), currentRoom = Some (roomId_of d)\<rparr>)\<rparr>"
  using assms
  by (auto simp add: join_room_def joined_room_def Let_def getOrCreateRoom_def split: prod.splits option.splits)

lemma join_room_effects:
  assumes "sockets st c = Some ud"
  shows "snd (join_room c d rnd now st) =
     snd (leave_previous c (currentRoom ud) (rooms st)) @
     [SocketJoin c (roomId_of d),
      Emit (ToSocket c) (user_joined (resolve_username (customUsername_of d) rnd) (fcard (users (joined_room c (roomId_of d) now ud st)))),
      Emit (ToRoomExcept (roomId_of d) c) (user_activity JoinActivity (resolve_username (customUsername_of d) rnd @ js '' joined the chat'')
          (fcard (users (joined_room c (roomId_of d) now ud st))))]"
  using assms
  by (auto simp add: join_room_def joined_room_def Let_def split: prod.splits option.splits)

lemma emitted_append: "emitted (xs @ ys) = emitted xs @ emitted ys"
  by (induction xs rule: emitted.induct) auto

lemma emitted_leave_previous: "emitted (snd (leave_previous c cur rs)) = []"
  by (auto simp add: leave_previous_def split: option.splits)

subsection \<open>Steps and runs\<close>

lemma next_state_simps [simp]:
  "next_state (Connection c) st = fst (connection_event c st)"
  "next_state (JoinRoom c d rnd now) st = fst (join_room c d rnd now st)"
  "next_state (Disconnect c) st = fst (disconnect_event c st)"
  "next_state TimerFires st = timer_fires st"
  by (simp_all add: next_state_def split: prod.splits)

lemma exec_Cons_Inr: "exec (e # es) st = Inr st' \<Longrightarrow> exec es (next_state e st) = Inr st'"
  by (auto simp add: next_state_def split: sum.splits)

lemma exec_invariant:
  assumes "\<And>e st. P st \<Longrightarrow> Q e \<Longrightarrow> P (next_state e st)"
    and "P st" and "\<forall>e\<in>set es. Q e" and "exec es st = Inr st'"
  shows "P st'"
  using assms(2-4)
proof (induction es arbitrary: st)
  case Nil
  then show ?case by simp
next
  case (Cons e es)
  from Cons.prems(3) have "exec es (next_state e st) = Inr st'" by (rule exec_Cons_Inr)
  moreover from Cons.prems(1,2) have "P (next_state e st)" by (simp add: assms(1))
  moreover from Cons.prems(2) have "\<forall>e\<in>set es. Q e" by simp
  ultimately show ?case using Cons.IH by blast
qed

lemma disconnect_event_eq [simp]:
  "disconnect_event c st =
     (fst (disconnect c st)\<lparr>sockets := (sockets (fst (disconnect c st)))(c := None)\<rparr>,
      snd (disconnect c st))"
  by (simp add: disconnect_event_def split: prod.splits)

subsection \<open>The timer callback\<close>


lemma reap_after_join:
  assumes "sockets st c = Some ud"
  shows "reap (roomId_of d) (fst (join_room c d rnd now st)) = fst (join_room c d rnd now st)"
  by (simp add: join_room_state [OF assms] reap_def joined_room_def Let_def)

subsection \<open>Generated names\<close>

lemma generateUsername_eq: "generateUsername rnd = js ''Anon-'' @ take 4 (drop 2 rnd)"
  by (simp add: generateUsername_def substring_2_6)

lemma base36_suffix:
  assumes "base36_fraction rnd" shows "list_all is_lower_alnum (take 4 (drop 2 rnd))"
  using assms
  by (cases rnd rule: base36_fraction.cases) (auto simp add: list_all_iff dest: in_set_takeD)

subsection \<open>The message bound is an invariant\<close>

lemma msgs_bounded_init: "msgs_bounded init_state"
  by (simp add: msgs_bounded_def init_state_def)

lemma join_room_rooms:
  "rooms (fst (join_room c d rnd now st)) k = Some rm \<Longrightarrow>
     \<exists>rm0. (rooms st k = Some rm0 \<or> rm0 = \<lparr>users = {||}, messages = [], createdAt = now\<rparr>) \<and> messages rm = messages rm0"
proof (cases "sockets st c")
  case None
  assume "rooms (fst (join_room c d rnd now st)) k = Some rm"
  with None show ?thesis by (auto simp add: join_room_def)
next
  case (Some ud)
  assume "rooms (fst (join_room c d rnd now st)) k = Some rm"
  then show ?thesis
    by (auto simp add: join_room_state [OF Some] joined_room_def getOrCreateRoom_snd leave_previous_rooms
        split: if_splits option.splits)
qed

lemma msgs_bounded_join: "msgs_bounded st \<Longrightarrow> msgs_bounded (fst (join_room c d rnd now st))"
  unfolding msgs_bounded_def
  by (auto dest!: join_room_rooms)

lemma msgs_bounded_send: "msgs_bounded st \<Longrightarrow> msgs_bounded (next_state (SendMessage c msg uuid now) st)"
  unfolding msgs_bounded_def
  by (auto simp add: next_state_def send_message_def Let_def
      split: option.splits if_splits send_data.splits message_field.splits)

lemma msgs_bounded_disconnect: "msgs_bounded st \<Longrightarrow> msgs_bounded (fst (disconnect c st))"
  unfolding msgs_bounded_def disconnect_def
  by (auto simp add: Let_def split: option.splits if_splits)

lemma msgs_bounded_reap: "msgs_bounded st \<Longrightarrow> msgs_bounded (reap r st)"
  unfolding msgs_bounded_def reap_def
  by (auto split: option.splits if_splits)

lemma msgs_bounded_timer:
  assumes "msgs_bounded st" shows "msgs_bounded (timer_fires st)"
proof (cases "timers st")
  case Nil
  with assms show ?thesis by (simp add: timer_fires_def)
next
  case (Cons r rest)
  from assms have "msgs_bounded (st\<lparr>timers := rest\<rparr>)" by (simp add: msgs_bounded_def)
  then have "msgs_bounded (reap r (st\<lparr>timers := rest\<rparr>))" by (rule msgs_bounded_reap)
  with Cons show ?thesis by (simp add: timer_fires_def)
qed

lemma msgs_bounded_step: "msgs_bounded st \<Longrightarrow> msgs_bounded (next_state e st)"
proof (cases e)
  case (Connection c)
  assume "msgs_bounded st"
  then show ?thesis using Connection
    by (auto simp add: msgs_bounded_def connection_event_def connection_def split: option.splits)
next
  case (JoinRoom c d rnd now)
  assume "msgs_bounded st"
  then show ?thesis using JoinRoom by (simp add: msgs_bounded_join)
next
  case (SendMessage c msg uuid now)
  assume "msgs_bounded st"
  then show ?thesis using SendMessage by (simp add: msgs_bounded_send)
next
  case (Disconnect c)
  assume "msgs_bounded st"
  then have "msgs_bounded (fst (disconnect c st))" by (rule msgs_bounded_disconnect)
  then show ?thesis using Disconnect
    by (simp add: msgs_bounded_def split: prod.splits)
next
  case TimerFires
  assume "msgs_bounded st"
  then show ?thesis using TimerFires by (simp add: msgs_bounded_timer)
qed

lemma msgs_bounded_exec: "msgs_bounded st \<Longrightarrow> exec es st = Inr st' \<Longrightarrow> msgs_bounded st'"
  by (rule exec_invariant [where P = msgs_bounded and Q = "\<lambda>e. True" and es = es and st = st])
     (simp_all add: msgs_bounded_step)

lemma send_message_accepted:
  assumes "sockets st c = Some ud" and "currentRoom ud = Some roomId" and "roomId \<noteq> []"
    and "trim m \<noteq> []" and "rooms st roomId = Some r"
  shows "send_message c (Payload (MessageText m)) uuid now st =
     (let messageObj = \<lparr>msg_id = uuid, sender = username ud, senderId = c, message = trim m, timestamp = now\<rparr>
      in Inr (st\<lparr>rooms := (rooms st)(roomId \<mapsto>
              r\<lparr>messages := (if length (messages r) < 100 then messages r @ [messageObj]
                              else tl (messages r) @ [messageObj])\<rparr>)\<rparr>,
          [Emit (ToRoom roomId) (receive_message messageObj)]))"
  using assms by (cases "messages r") (auto simp add: send_message_def Let_def)

subsection \<open>A recorded room holds its socket\<close>

text \<open>Every event keeps \<open>session_inv\<close>: a socket is taken out of a room only by its own
  join or disconnect, and the reaper deletes only rooms without members.\<close>

lemma session_inv_init: "session_inv init_state"
  by (simp add: session_inv_def init_state_def)

lemma session_inv_join:
  assumes "session_inv st" shows "session_inv (fst (join_room c d rnd now st))"
proof (cases "sockets st c")
  case None
  with assms show ?thesis by (simp add: join_room_def)
next
  case (Some ud)
  show ?thesis
    unfolding session_inv_def
  proof (intro allI impI, elim conjE)
    fix c' ud' r
    assume a: "sockets (fst (join_room c d rnd now st)) c' = Some ud'" "currentRoom ud' = Some r" "r \<noteq> []"
    show "\<exists>rm. rooms (fst (join_room c d rnd now st)) r = Some rm \<and> c' |\<in>| users rm"
    proof (cases "c' = c")
      case True
      with a show ?thesis
        by (auto simp add: join_room_state [OF Some] joined_room_def Let_def)
    next
      case False
      with a have "sockets st c' = Some ud'" by (simp add: join_room_state [OF Some])
      with assms a obtain rm where rm: "rooms st r = Some rm" "c' |\<in>| users rm"
        unfolding session_inv_def by blast
      with False show ?thesis
        by (auto simp add: join_room_state [OF Some] joined_room_def Let_def getOrCreateRoom_snd leave_previous_rooms)
    qed
  qed
qed

lemma send_message_sockets: "sockets (next_state (SendMessage c msg uuid now) st) = sockets st"
  by (auto simp add: next_state_def send_message_def Let_def
      split: option.splits if_splits send_data.splits message_field.splits)

lemma send_message_users:
  "rooms st r = Some rm \<Longrightarrow>
     \<exists>rm'. rooms (next_state (SendMessage c msg uuid now) st) r = Some rm' \<and> users rm' = users rm"
  by (auto simp add: next_state_def send_message_def Let_def
      split: option.splits if_splits send_data.splits message_field.splits)

lemma session_inv_send:
  assumes "session_inv st" shows "session_inv (next_state (SendMessage c msg uuid now) st)"
  unfolding session_inv_def
proof (intro allI impI, elim conjE)
  fix c' ud' r
  assume a: "sockets (next_state (SendMessage c msg uuid now) st) c' = Some ud'" "currentRoom ud' = Some r" "r \<noteq> []"
  then have "sockets st c' = Some ud'" by (simp add: send_message_sockets)
  with assms a obtain rm where rm: "rooms st r = Some rm" "c' |\<in>| users rm"
    unfolding session_inv_def by blast
  from send_message_users [OF rm(1)] rm(2)
  show "\<exists>rm. rooms (next_state (SendMessage c msg uuid now) st) r = Some rm \<and> c' |\<in>| users rm"
    by metis
qed

lemma session_inv_disconnect_step:
  assumes "session_inv st" shows "session_inv (fst (disconnect_event c st))"
  unfolding session_inv_def
proof (intro allI impI, elim conjE)
  fix c' ud' r
  assume a: "sockets (fst (disconnect_event c st)) c' = Some ud'" "currentRoom ud' = Some r" "r \<noteq> []"
  have sk: "sockets (fst (disconnect c st)) = sockets st"
    by (auto simp add: disconnect_def Let_def split: option.splits)
  obtain st' out where d: "disconnect c st = (st', out)" by force
  with sk have sk': "sockets st' = sockets st" by (metis fst_conv)
  from a d have ne: "c' \<noteq> c" and s: "sockets st c' = Some ud'"
    by (auto simp add: sk' split: if_splits)
  with assms a obtain rm where rm: "rooms st r = Some rm" "c' |\<in>| users rm"
    unfolding session_inv_def by blast
  have "\<exists>rm. rooms (fst (disconnect c st)) r = Some rm \<and> c' |\<in>| users rm"
    using rm ne by (auto simp add: disconnect_def Let_def split: option.splits)
  then show "\<exists>rm. rooms (fst (disconnect_event c st)) r = Some rm \<and> c' |\<in>| users rm"
    using d by simp
qed

lemma session_inv_reap: "session_inv st \<Longrightarrow> session_inv (reap r st)"
  unfolding session_inv_def reap_def
  by (fastforce split: option.splits if_splits)

lemma session_inv_timer:
  assumes "session_inv st" shows "session_inv (timer_fires st)"
proof (cases "timers st")
  case Nil
  with assms show ?thesis by (simp add: timer_fires_def)
next
  case (Cons r rest)
  from assms have "session_inv (st\<lparr>timers := rest\<rparr>)" by (simp add: session_inv_def)
  then have "session_inv (reap r (st\<lparr>timers := rest\<rparr>))" by (rule session_inv_reap)
  with Cons show ?thesis by (simp add: timer_fires_def)
qed

lemma session_inv_step: "session_inv st \<Longrightarrow> session_inv (next_state e st)"
proof (cases e)
  case (Connection c)
  assume "session_inv st"
  then show ?thesis using Connection
    by (auto simp add: session_inv_def connection_event_def connection_def split: option.splits)
next
  case (JoinRoom c d rnd now)
  assume "session_inv st"
  then show ?thesis using JoinRoom by (simp add: session_inv_join)
next
  case (SendMessage c msg uuid now)
  assume "session_inv st"
  then show ?thesis using SendMessage by (simp add: session_inv_send)
next
  case (Disconnect c)
  assume "session_inv st"
  then show ?thesis using Disconnect session_inv_disconnect_step [of st c] by simp
next
  case TimerFires
  assume "session_inv st"
  then show ?thesis using TimerFires by (simp add: session_inv_timer)
qed

lemma session_inv_exec: "session_inv st \<Longrightarrow> exec es st = Inr st' \<Longrightarrow> session_inv st'"
  by (rule exec_invariant [where P = session_inv and Q = "\<lambda>e. True" and es = es and st = st])
     (simp_all add: session_inv_step)

subsection \<open>An idle room stays idle\<close>

text \<open>No event other than a join to the room itself changes an idle room: nobody can leave
  it, no disconnect sets a timer for it, and no pending timer names it.\<close>

lemma idle_room_join:
  assumes "idle_room R st" and "roomId_of d \<noteq> R"
  shows "idle_room R (fst (join_room c d rnd now st))"
proof (cases "sockets st c")
  case None
  with assms show ?thesis by (simp add: join_room_def)
next
  case (Some ud)
  from assms(1) Some have cur: "R \<noteq> [] \<Longrightarrow> currentRoom ud \<noteq> Some R"
    by (auto simp add: idle_room_def)
  have "rooms (fst (join_room c d rnd now st)) R = rooms st R"
    using assms(2) cur by (auto simp add: join_room_state [OF Some] leave_previous_rooms)
  moreover have "timers (fst (join_room c d rnd now st)) = timers st"
    by (simp add: join_room_state [OF Some])
  moreover have "\<And>c' ud'. sockets (fst (join_room c d rnd now st)) c' = Some ud' \<Longrightarrow> R \<noteq> [] \<Longrightarrow> currentRoom ud' \<noteq> Some R"
    using assms by (auto simp add: join_room_state [OF Some] idle_room_def split: if_splits)
  ultimately show ?thesis using assms(1) unfolding idle_room_def by metis
qed

lemma idle_room_send:
  assumes "idle_room R st" shows "idle_room R (next_state (SendMessage c msg uuid now) st)"
proof -
  have "timers (next_state (SendMessage c msg uuid now) st) = timers st"
    by (auto simp add: next_state_def send_message_def Let_def
      split: option.splits if_splits send_data.splits message_field.splits)
  moreover from assms obtain rm where "rooms st R = Some rm" "users rm = {||}"
    by (auto simp add: idle_room_def)
  with send_message_users have "\<exists>rm'. rooms (next_state (SendMessage c msg uuid now) st) R = Some rm' \<and> users rm' = {||}"
    by metis
  ultimately show ?thesis using assms
    unfolding idle_room_def by (simp add: send_message_sockets)
qed

lemma idle_room_disconnect:
  assumes "idle_room R st" shows "idle_room R (fst (disconnect_event c st))"
proof (cases "rooms (fst (disconnect c st)) R = rooms st R \<and> R \<notin> set (timers (fst (disconnect c st)))")
  case True
  have sk: "sockets (fst (disconnect c st)) = sockets st"
    by (auto simp add: disconnect_def Let_def split: option.splits)
  obtain st' out where d: "disconnect c st = (st', out)" by force
  with sk True have "sockets st' = sockets st" "rooms st' R = rooms st R" "R \<notin> set (timers st')"
    by (metis fst_conv)+
  with assms d show ?thesis
    by (auto simp add: idle_room_def split: if_splits)
next
  case False
  with assms show ?thesis
    by (auto simp add: idle_room_def disconnect_def Let_def split: option.splits if_splits)
qed

lemma idle_room_timer:
  assumes "idle_room R st" shows "idle_room R (timer_fires st)"
proof (cases "timers st")
  case Nil
  with assms show ?thesis by (simp add: timer_fires_def)
next
  case (Cons r rest)
  with assms have "r \<noteq> R" "R \<notin> set rest" by (auto simp add: idle_room_def)
  with assms Cons show ?thesis
    by (auto simp add: idle_room_def timer_fires_def reap_def split: option.splits)
qed

lemma idle_room_step:
  assumes "idle_room R st" and "\<not> joins R e" shows "idle_room R (next_state e st)"
proof (cases e)
  case (Connection c)
  with assms show ?thesis
    by (auto simp add: idle_room_def connection_event_def connection_def split: option.splits)
next
  case (JoinRoom c d rnd now)
  with assms show ?thesis by (simp add: idle_room_join)
next
  case (SendMessage c msg uuid now)
  with assms show ?thesis by (simp add: idle_room_send)
next
  case (Disconnect c)
  with assms idle_room_disconnect [of R st c] show ?thesis by simp
next
  case TimerFires
  with assms show ?thesis by (simp add: idle_room_timer)
qed

lemma idle_room_exec:
  "idle_room R st \<Longrightarrow> \<forall>e\<in>set es. \<not> joins R e \<Longrightarrow> exec es st = Inr st' \<Longrightarrow> idle_room R st'"
  by (rule exec_invariant [where P = "idle_room R" and Q = "\<lambda>e. \<not> joins R e" and es = es and st = st])
     (simp_all add: idle_room_step)

subsection \<open>Evaluation of the scenarios\<close>

lemma names_distinct [simp]:
  "sock_a \<noteq> sock_b" "sock_b \<noteq> sock_a" "lobby \<noteq> den" "den \<noteq> lobby"
  "lobby \<noteq> []" "den \<noteq> []" "[] \<noteq> lobby" "[] \<noteq> den"
  by (simp_all add: sock_a_def sock_b_def lobby_def den_def js_def)

lemmas handler_defs =
  join_room_def send_message_def disconnect_def reap_def timer_fires_def connection_def
  connection_event_def disconnect_event_def
  leave_previous_def getOrCreateRoom_def roomId_of_def customUsername_of_def init_state_def

lemmas string_defs =
  js_def trim_def is_ws_def substring_def generateUsername_def resolve_username_def

lemma chat_trace_room: "exec chat_trace init_state = Inr chat_state"
  by (simp add: chat_trace_def alone_in_lobby_def chat_state_def chat_room_def handler_defs Let_def
      string_defs rnd_sample_def)

subsection \<open>Membership when no room is named by the empty string\<close>

text \<open>As long as no \<^verbatim>\<open>join_room\<close> names the empty string, the leave block does run on
  every join after the first, and a socket is a member of the room it records and of no
  other.\<close>

lemma one_room_inv_init: "one_room_inv init_state"
  by (simp add: one_room_inv_def init_state_def)

lemma one_room_inv_join:
  assumes "one_room_inv st" and "roomId_of d \<noteq> []"
  shows "one_room_inv (fst (join_room c d rnd now st))"
proof (cases "sockets st c")
  case None
  with assms show ?thesis by (simp add: join_room_def)
next
  case (Some ud)
  let ?st' = "fst (join_room c d rnd now st)"
  from assms(1) Some have cur: "currentRoom ud \<noteq> Some []"
    unfolding one_room_inv_def by blast
  have p1: "currentRoom ud' \<noteq> Some []" if "sockets ?st' c' = Some ud'" for c' ud'
    using that assms unfolding one_room_inv_def
    by (auto simp add: join_room_state [OF Some] split: if_splits)
  have p2: "\<exists>ud'. sockets ?st' c' = Some ud' \<and> currentRoom ud' = Some r"
    if "rooms ?st' r = Some rm'" "c' |\<in>| users rm'" for c' r rm'
  proof (cases "r = roomId_of d")
    case True
    show ?thesis
    proof (cases "c' = c")
      case True
      with \<open>r = roomId_of d\<close> show ?thesis by (simp add: join_room_state [OF Some])
    next
      case False
      from that True False obtain rm where "rooms st r = Some rm" "c' |\<in>| users rm"
        by (auto simp add: join_room_state [OF Some] joined_room_def Let_def getOrCreateRoom_snd
            leave_previous_rooms split: option.splits if_splits)
      with assms(1) obtain ud' where "sockets st c' = Some ud'" "currentRoom ud' = Some r"
        unfolding one_room_inv_def by blast
      with False show ?thesis by (simp add: join_room_state [OF Some])
    qed
  next
    case False
    with that obtain rm where rm: "rooms st r = Some rm" "c' |\<in>| users rm"
      and nc: "currentRoom ud = Some r \<and> r \<noteq> [] \<longrightarrow> c' \<noteq> c"
      by (auto simp add: join_room_state [OF Some] leave_previous_rooms split: if_splits)
    from assms(1) rm obtain ud' where ud': "sockets st c' = Some ud'" "currentRoom ud' = Some r"
      unfolding one_room_inv_def by blast
    have "c' \<noteq> c"
    proof
      assume "c' = c"
      with ud' Some have "currentRoom ud = Some r" by simp
      with cur nc \<open>c' = c\<close> show False by auto
    qed
    with ud' show ?thesis by (simp add: join_room_state [OF Some])
  qed
  from p1 p2 show ?thesis unfolding one_room_inv_def by blast
qed

lemma one_room_inv_send:
  assumes "one_room_inv st" shows "one_room_inv (next_state (SendMessage c msg uuid now) st)"
proof -
  have "\<exists>rm. rooms st r = Some rm \<and> users rm = users rm'"
    if "rooms (next_state (SendMessage c msg uuid now) st) r = Some rm'" for r rm'
    using that by (auto simp add: next_state_def send_message_def Let_def
      split: option.splits if_splits send_data.splits message_field.splits)
  with assms show ?thesis
    unfolding one_room_inv_def by (simp add: send_message_sockets) metis
qed

lemma one_room_inv_disconnect_step:
  assumes "one_room_inv st" shows "one_room_inv (fst (disconnect_event c st))"
proof -
  obtain st' out where d: "disconnect c st = (st', out)" by force
  have sk: "sockets st' = sockets st"
    using d by (auto simp add: disconnect_def Let_def split: option.splits if_splits)
  have p2: "\<exists>ud'. sockets st c' = Some ud' \<and> currentRoom ud' = Some r \<and> c' \<noteq> c"
    if "rooms st' r = Some rm'" "c' |\<in>| users rm'" for c' r rm'
  proof -
    from that d obtain rm where rm: "rooms st r = Some rm" "c' |\<in>| users rm"
      by (auto simp add: disconnect_def Let_def split: option.splits if_splits)
    with assms obtain ud' where ud': "sockets st c' = Some ud'" "currentRoom ud' = Some r"
      unfolding one_room_inv_def by blast
    with assms have "r \<noteq> []" unfolding one_room_inv_def by blast
    have "c' \<noteq> c"
    proof
      assume "c' = c"
      with ud' rm \<open>r \<noteq> []\<close> d have "rooms st' r = Some (rm\<lparr>users := users rm |-| {|c|}\<rparr>)"
        by (auto simp add: disconnect_def Let_def split: if_splits)
      with that \<open>c' = c\<close> show False by auto
    qed
    with ud' show ?thesis by simp
  qed
  show ?thesis
    unfolding one_room_inv_def
  proof (intro conjI allI impI)
    fix c' ud'
    assume "sockets (fst (disconnect_event c st)) c' = Some ud'"
    with d sk have "sockets st c' = Some ud'" by (simp split: if_splits)
    with assms show "currentRoom ud' \<noteq> Some []" unfolding one_room_inv_def by blast
  next
    fix c' r rm'
    assume "rooms (fst (disconnect_event c st)) r = Some rm' \<and> c' |\<in>| users rm'"
    with d have "rooms st' r = Some rm'" "c' |\<in>| users rm'" by simp_all
    from p2 [OF this] d sk
    show "\<exists>ud. sockets (fst (disconnect_event c st)) c' = Some ud \<and> currentRoom ud = Some r"
      by auto
  qed
qed

lemma one_room_inv_timer:
  assumes "one_room_inv st" shows "one_room_inv (timer_fires st)"
proof -
  have "sockets (timer_fires st) = sockets st"
    by (auto simp add: timer_fires_def reap_def split: list.splits option.splits)
  moreover have "rooms st r = Some rm" if "rooms (timer_fires st) r = Some rm" for r rm
    using that by (auto simp add: timer_fires_def reap_def split: list.splits option.splits if_splits)
  ultimately show ?thesis using assms unfolding one_room_inv_def by metis
qed

lemma one_room_inv_step:
  assumes "one_room_inv st" and "\<not> joins [] e" shows "one_room_inv (next_state e st)"
proof (cases e)
  case (Connection c)
  show ?thesis
  proof (cases "sockets st c")
    case None
    with assms(1) have "c |\<notin>| users rm" if "rooms st r = Some rm" for r rm
      using that unfolding one_room_inv_def by fastforce
    with assms(1) None Connection show ?thesis
      unfolding one_room_inv_def by (auto simp add: connection_event_def connection_def)
  next
    case (Some ud)
    with assms(1) Connection show ?thesis by (simp add: connection_event_def)
  qed
next
  case (JoinRoom c d rnd now)
  with assms show ?thesis by (simp add: one_room_inv_join)
next
  case (SendMessage c msg uuid now)
  with assms show ?thesis by (simp add: one_room_inv_send)
next
  case (Disconnect c)
  with assms one_room_inv_disconnect_step [of st c] show ?thesis by simp
next
  case TimerFires
  with assms show ?thesis by (simp add: one_room_inv_timer)
qed

lemma one_room_inv_exec:
  "one_room_inv st \<Longrightarrow> \<forall>e\<in>set es. \<not> joins [] e \<Longrightarrow> exec es st = Inr st' \<Longrightarrow> one_room_inv st'"
  by (rule exec_invariant [where P = one_room_inv and Q = "\<lambda>e. \<not> joins [] e" and es = es and st = st])
     (simp_all add: one_room_inv_step)

lemma member_of_one_room:
  assumes "\<forall>e\<in>set es. \<not> joins [] e" and "exec es init_state = Inr st"
    and "rooms st r1 = Some rm1" and "c |\<in>| users rm1"
    and "rooms st r2 = Some rm2" and "c |\<in>| users rm2"
  shows "r1 = r2 \<and> map_option currentRoom (sockets st c) = Some (Some r1)"
proof -
  have "one_room_inv st"
    using one_room_inv_init assms(1,2) by (rule one_room_inv_exec)
  then have m: "\<exists>ud. sockets st c = Some ud \<and> currentRoom ud = Some r"
    if "rooms st r = Some rm" "c |\<in>| users rm" for r rm
    using that unfolding one_room_inv_def by blast
  from m [OF assms(3,4)] m [OF assms(5,6)] show ?thesis by auto
qed

subsection \<open>A member keeps its room in the store\<close>

lemma send_rooms_users:
  "map_option users (rooms (next_state (SendMessage c data uuid now) st) r) = map_option users (rooms st r)"
  by (auto simp add: next_state_def send_message_def Let_def
      split: option.splits if_splits send_data.splits message_field.splits)

lemma send_timers: "timers (next_state (SendMessage c data uuid now) st) = timers st"
  by (auto simp add: next_state_def send_message_def Let_def
      split: option.splits if_splits send_data.splits message_field.splits)

lemma join_room_timers: "timers (fst (join_room c d rnd now st)) = timers st"
proof (cases "sockets st c")
  case None
  then show ?thesis by (simp add: join_room_def)
next
  case (Some ud)
  then show ?thesis by (simp add: join_room_state [OF Some])
qed

lemma join_room_keeps_rooms:
  "rooms st r \<noteq> None \<Longrightarrow> rooms (fst (join_room c d rnd now st)) r \<noteq> None"
proof (cases "sockets st c")
  case None
  assume "rooms st r \<noteq> None"
  with None show ?thesis by (simp add: join_room_def)
next
  case (Some ud)
  assume "rooms st r \<noteq> None"
  then show ?thesis by (auto simp add: join_room_state [OF Some] leave_previous_rooms)
qed

lemma disconnect_event_sockets: "sockets (fst (disconnect_event c st)) = (sockets st)(c := None)"
  by (auto simp add: disconnect_def Let_def split: option.splits)

lemma disconnect_event_other_room:
  assumes "\<And>ud. sockets st c = Some ud \<Longrightarrow> currentRoom ud \<noteq> Some R"
  shows "rooms (fst (disconnect_event c st)) R = rooms st R"
    and "R \<in> set (timers (fst (disconnect_event c st))) \<longleftrightarrow> R \<in> set (timers st)"
  using assms by (auto simp add: disconnect_def Let_def split: option.splits)

lemma timer_fires_other:
  "R \<notin> set (timers st) \<Longrightarrow> rooms (timer_fires st) R = rooms st R"
  "R \<notin> set (timers st) \<Longrightarrow> R \<notin> set (timers (timer_fires st))"
  "sockets (timer_fires st) = sockets st"
  by (auto simp add: timer_fires_def reap_def split: list.splits option.splits)




subsection \<open>A room with no timer pending stays in the store\<close>


lemma kept_room_step:
  assumes "kept_room R J st" and "no_leaver R J (e # es)"
  shows "\<exists>J'. kept_room R J' (next_state e st) \<and> no_leaver R J' es"
proof (cases e)
  case (Connection c)
  with assms show ?thesis
    by (auto simp add: kept_room_def connection_event_def connection_def split: option.splits)
next
  case (JoinRoom c d rnd now)
  let ?J = "if roomId_of d = R then c # J else J"
  have "kept_room R ?J (fst (join_room c d rnd now st))"
  proof (cases "sockets st c")
    case None
    with assms(1) show ?thesis by (auto simp add: join_room_def kept_room_def)
  next
    case (Some ud)
    from assms(1) have "rooms (fst (join_room c d rnd now st)) R \<noteq> None"
      by (simp add: kept_room_def join_room_keeps_rooms)
    with assms(1) show ?thesis
      by (auto simp add: kept_room_def join_room_timers join_room_state [OF Some] split: if_splits)
  qed
  with assms(2) JoinRoom show ?thesis by auto
next
  case (SendMessage c data uuid now)
  have "rooms (next_state (SendMessage c data uuid now) st) R \<noteq> None"
    using assms(1) send_rooms_users [of c data uuid now st R]
    by (auto simp add: kept_room_def)
  moreover have "sockets (next_state (SendMessage c data uuid now) st) = sockets st"
    by (rule send_message_sockets)
  ultimately show ?thesis using assms SendMessage
    by (auto simp add: kept_room_def send_timers)
next
  case (Disconnect c)
  with assms have nj: "c \<notin> set J" and nl: "no_leaver R J es" by auto
  from assms(1) nj have "\<And>ud. sockets st c = Some ud \<Longrightarrow> currentRoom ud \<noteq> Some R"
    by (auto simp add: kept_room_def)
  note o = disconnect_event_other_room [OF this]
  from assms(1) have "kept_room R J (fst (disconnect_event c st))"
    unfolding kept_room_def
    by (simp only: o disconnect_event_sockets) (auto split: if_splits)
  with nl Disconnect show ?thesis by auto
next
  case TimerFires
  with assms show ?thesis
    by (auto simp add: kept_room_def timer_fires_other)
qed

lemma kept_room_run:
  "kept_room R J st \<Longrightarrow> no_leaver R J es \<Longrightarrow> exec es st = Inr st' \<Longrightarrow>
     rooms st' R \<noteq> None \<and> R \<notin> set (timers st')"
proof (induction es arbitrary: J st)
  case Nil
  then show ?case by (simp add: kept_room_def)
next
  case (Cons e es)
  from kept_room_step [OF Cons.prems(1,2)] obtain J'
    where "kept_room R J' (next_state e st)" "no_leaver R J' es" by blast
  moreover from Cons.prems(3) have "exec es (next_state e st) = Inr st'" by (rule exec_Cons_Inr)
  ultimately show ?case by (rule Cons.IH)
qed

subsection \<open>An empty room with a timer pending is deleted\<close>

lemma doomed_room_step:
  assumes "doomed_room R st" and "\<not> joins R e" shows "doomed_room R (next_state e st)"
proof (cases e)
  case (Connection c)
  with assms show ?thesis
    by (auto simp add: doomed_room_def connection_event_def connection_def split: option.splits)
next
  case (JoinRoom c d rnd now)
  with assms have ne: "roomId_of d \<noteq> R" by simp
  show ?thesis
  proof (cases "sockets st c")
    case None
    with JoinRoom assms(1) show ?thesis by (simp add: join_room_def)
  next
    case (Some ud)
    with assms(1) have "currentRoom ud \<noteq> Some R" by (auto simp add: doomed_room_def)
    with ne have "rooms (fst (join_room c d rnd now st)) R = rooms st R"
      by (auto simp add: join_room_state [OF Some] leave_previous_rooms)
    with assms(1) ne JoinRoom show ?thesis
      by (auto simp add: doomed_room_def join_room_timers join_room_state [OF Some] split: if_splits)
  qed
next
  case (SendMessage c data uuid now)
  have s: "sockets (next_state (SendMessage c data uuid now) st) = sockets st"
    by (rule send_message_sockets)
  from send_rooms_users [of c data uuid now st R]
  have "rooms (next_state (SendMessage c data uuid now) st) R = None \<longleftrightarrow> rooms st R = None"
    and "(\<exists>rm. rooms (next_state (SendMessage c data uuid now) st) R = Some rm \<and> users rm = {||})
         \<longleftrightarrow> (\<exists>rm. rooms st R = Some rm \<and> users rm = {||})"
    by (cases "rooms st R"; cases "rooms (next_state (SendMessage c data uuid now) st) R"; simp)+
  with assms(1) SendMessage show ?thesis
    unfolding doomed_room_def by (simp add: s send_timers)
next
  case (Disconnect c)
  from assms(1) have "\<And>ud. sockets st c = Some ud \<Longrightarrow> currentRoom ud \<noteq> Some R"
    by (auto simp add: doomed_room_def)
  note o = disconnect_event_other_room [OF this]
  from assms(1) have "doomed_room R (fst (disconnect_event c st))"
    unfolding doomed_room_def
    by (simp only: o disconnect_event_sockets) (auto split: if_splits)
  with Disconnect show ?thesis by simp
next
  case TimerFires
  show ?thesis
  proof (cases "timers st")
    case Nil
    with assms(1) TimerFires show ?thesis by (simp add: timer_fires_def)
  next
    case (Cons r rest)
    with assms(1) TimerFires show ?thesis
      by (auto simp add: doomed_room_def timer_fires_def reap_def split: option.splits)
  qed
qed

lemma doomed_room_exec:
  "doomed_room R st \<Longrightarrow> \<forall>e\<in>set es. \<not> joins R e \<Longrightarrow> exec es st = Inr st' \<Longrightarrow> doomed_room R st'"
  by (rule exec_invariant [where P = "doomed_room R" and Q = "\<lambda>e. \<not> joins R e" and es = es and st = st])
     (simp_all add: doomed_room_step)

subsection \<open>The state a switch leaves\<close>

lemma switch_state:
  assumes "session_inv st" and "sockets st c = Some ud" and "currentRoom ud = Some R" and "R \<noteq> []"
    and "rooms st R = Some rm" and "users rm = {|c|}" and "roomId_of d \<noteq> R"
  shows "rooms (fst (join_room c d rnd now st)) R = Some (rm\<lparr>users := {||}\<rparr>)"
    and "timers (fst (join_room c d rnd now st)) = timers st"
    and "\<And>c' ud'. sockets (fst (join_room c d rnd now st)) c' = Some ud' \<Longrightarrow> currentRoom ud' \<noteq> Some R"
proof -
  let ?st' = "fst (join_room c d rnd now st)"
  have only: "c' = c" if "sockets st c' = Some ud'" "currentRoom ud' = Some R" for c' ud'
  proof -
    from assms(1) that \<open>R \<noteq> []\<close> obtain rm' where "rooms st R = Some rm'" "c' |\<in>| users rm'"
      unfolding session_inv_def by blast
    with assms(5,6) show ?thesis by simp
  qed
  show "rooms ?st' R = Some (rm\<lparr>users := {||}\<rparr>)"
    using assms(3-7) by (simp add: join_room_state [OF assms(2)] leave_previous_rooms)
  show "timers ?st' = timers st" by (rule join_room_timers)
  show "currentRoom ud' \<noteq> Some R" if "sockets ?st' c' = Some ud'" for c' ud'
  proof (cases "c' = c")
    case True
    with that assms(7) show ?thesis by (auto simp add: join_room_state [OF assms(2)])
  next
    case False
    with that have "sockets st c' = Some ud'" by (simp add: join_room_state [OF assms(2)])
    with only False show ?thesis by blast
  qed
qed

lemma timers_step_exact:
  assumes "\<forall>c. e \<noteq> Disconnect c" and "step e st = Inr (st', out)"
  shows "timers st' = timers st \<or> (e = TimerFires \<and> timers st' = tl (timers st))"
proof (cases e)
  case (Connection c)
  with assms(2) show ?thesis
    by (auto simp add: connection_event_def connection_def split: option.splits)
next
  case (JoinRoom c d rnd now)
  with assms(2) join_room_timers [of c d rnd now st] show ?thesis by auto
next
  case (SendMessage c data uuid now)
  with assms(2) send_timers [of c data uuid now st] show ?thesis
    by (simp add: next_state_def)
next
  case (Disconnect c)
  with assms(1) show ?thesis by simp
next
  case TimerFires
  with assms(2) show ?thesis
    by (auto simp add: timer_fires_def reap_def split: list.splits option.splits if_splits)
qed

section \<open>The claims\<close>

subsection \<open>C1: one room per connection\<close>

text \<open>
  Claim C1 says that after any sequence of \<^verbatim>\<open>join_room\<close> events a connection is a
  member of at most one room, the one it joined last. The handler tests
  \<^verbatim>\<open>if (socket.userData.currentRoom)\<close> before leaving, and the empty string is falsy:
  a socket that joined the room \<^verbatim>\<open>""\<close> and then joins the lobby is not removed from
  the first room. After the two joins it is a member of both, while its recorded room is
  the lobby.
\<close>

theorem join_after_empty_room_id:
  "room_after empty_id_trace [] = Inr (Some \<lparr>users = {|sock_a|}, messages = [], createdAt = 1\<rparr>) \<and>
   room_after empty_id_trace lobby = Inr (Some \<lparr>users = {|sock_a|}, messages = [], createdAt = 2\<rparr>) \<and>
   session_after empty_id_trace sock_a =
     Inr (Some \<lparr>username = Some (js ''Anon-k3x9''), currentRoom = Some lobby\<rparr>)"
  by (simp add: empty_id_trace_def room_after_def session_after_def handler_defs Let_def
      string_defs rnd_sample_def)

text \<open>
  The empty string is the only way to this state: by \<open>member_of_one_room\<close>, in every
  state reached without a join to the room \<^verbatim>\<open>""\<close> a socket is a member of at most one
  room, the one it records.
\<close>

subsection \<open>C2: at most 100 messages per room, oldest evicted first\<close>

text \<open>
  Claim C2. In every state the server reaches from its start, every room of the store
  holds at most 100 messages. An accepted \<^verbatim>\<open>send_message\<close> on a room that holds
  exactly 100 drops the first stored message and appends the new one; on a room that
  holds fewer it only appends. The remaining messages keep their order, and nothing else
  of the state changes.
\<close>

theorem messages_bounded_fifo:
  "(exec es init_state = Inr st' \<and> rooms st' k = Some rm \<longrightarrow> length (messages rm) \<le> 100) \<and>
   (sockets st c = Some ud \<and> currentRoom ud = Some roomId \<and> roomId \<noteq> [] \<and> trim m \<noteq> [] \<and>
    rooms st roomId = Some r \<and> length (messages r) = 100 \<longrightarrow>
      send_message c (Payload (MessageText m)) uuid now st =
        Inr (st\<lparr>rooms := (rooms st)(roomId \<mapsto> r\<lparr>messages := tl (messages r) @
                 [\<lparr>msg_id = uuid, sender = username ud, senderId = c, message = trim m,
                   timestamp = now\<rparr>]\<rparr>)\<rparr>,
             [Emit (ToRoom roomId)
                (receive_message \<lparr>msg_id = uuid, sender = username ud, senderId = c,
                   message = trim m, timestamp = now\<rparr>)])) \<and>
   (sockets st c = Some ud \<and> currentRoom ud = Some roomId \<and> roomId \<noteq> [] \<and> trim m \<noteq> [] \<and>
    rooms st roomId = Some r \<and> length (messages r) < 100 \<longrightarrow>
      send_message c (Payload (MessageText m)) uuid now st =
        Inr (st\<lparr>rooms := (rooms st)(roomId \<mapsto> r\<lparr>messages := messages r @
                 [\<lparr>msg_id = uuid, sender = username ud, senderId = c, message = trim m,
                   timestamp = now\<rparr>]\<rparr>)\<rparr>,
             [Emit (ToRoom roomId)
                (receive_message \<lparr>msg_id = uuid, sender = username ud, senderId = c,
                   message = trim m, timestamp = now\<rparr>)]))"
proof (intro conjI impI)
  assume a: "exec es init_state = Inr st' \<and> rooms st' k = Some rm"
  then have "msgs_bounded st'"
    using msgs_bounded_exec [OF msgs_bounded_init] by blast
  with a show "length (messages rm) \<le> 100"
    unfolding msgs_bounded_def by blast
next
  assume "sockets st c = Some ud \<and> currentRoom ud = Some roomId \<and> roomId \<noteq> [] \<and> trim m \<noteq> [] \<and>
    rooms st roomId = Some r \<and> length (messages r) = 100"
  then show "send_message c (Payload (MessageText m)) uuid now st =
        Inr (st\<lparr>rooms := (rooms st)(roomId \<mapsto> r\<lparr>messages := tl (messages r) @
                 [\<lparr>msg_id = uuid, sender = username ud, senderId = c, message = trim m,
                   timestamp = now\<rparr>]\<rparr>)\<rparr>,
             [Emit (ToRoom roomId)
                (receive_message \<lparr>msg_id = uuid, sender = username ud, senderId = c,
                   message = trim m, timestamp = now\<rparr>)])"
    by (simp add: send_message_accepted [of st c ud roomId m r] Let_def)
next
  assume "sockets st c = Some ud \<and> currentRoom ud = Some roomId \<and> roomId \<noteq> [] \<and> trim m \<noteq> [] \<and>
    rooms st roomId = Some r \<and> length (messages r) < 100"
  then show "send_message c (Payload (MessageText m)) uuid now st =
        Inr (st\<lparr>rooms := (rooms st)(roomId \<mapsto> r\<lparr>messages := messages r @
                 [\<lparr>msg_id = uuid, sender = username ud, senderId = c, message = trim m,
                   timestamp = now\<rparr>]\<rparr>)\<rparr>,
             [Emit (ToRoom roomId)
                (receive_message \<lparr>msg_id = uuid, sender = username ud, senderId = c,
                   message = trim m, timestamp = now\<rparr>)])"
    by (simp add: send_message_accepted [of st c ud roomId m r] Let_def)
qed

theorem messages_bounded_fifo_witness:
  "exec chat_trace init_state = Inr chat_state \<and>
   rooms chat_state lobby = Some chat_room \<and>
   length (messages chat_room) \<le> 100 \<and>
   sockets full_state sock_a = Some alice_data \<and> currentRoom alice_data = Some lobby \<and>
   trim (js ''hi'') \<noteq> [] \<and> rooms full_state lobby = Some full_room \<and>
   length (messages full_room) = 100 \<and>
   send_message sock_a (Payload (MessageText (js ''hi''))) (js ''id-1'') 2 full_state =
     Inr (full_state\<lparr>rooms := (rooms full_state)
            (lobby \<mapsto> full_room\<lparr>messages := replicate 99 old_msg @ [new_msg]\<rparr>)\<rparr>,
          [Emit (ToRoom lobby) (receive_message new_msg)])"
  using chat_trace_room
    messages_bounded_fifo [of chat_trace chat_state lobby chat_room full_state sock_a alice_data lobby
      "js ''hi''" full_room "js ''id-1''" 2]
  by (simp add: chat_state_def full_state_def full_room_def alice_data_def new_msg_def
      js_def trim_def is_ws_def)

subsection \<open>C3: the reaper\<close>




subsection \<open>C4: ignored messages\<close>

text \<open>
  Claim C4 says that a \<^verbatim>\<open>send_message\<close> from a connection with no current room, or
  with no text, or whose room is gone, does nothing and surfaces no error. The handler
  begins with \<^verbatim>\<open>const { message } = data\<close>, before it looks at the room: on an event
  that carries no payload this raises a TypeError, also for a connection that never
  joined, and nothing catches it. Where the recorded room is a non-empty identifier, a
  message that is not a string raises as well, at \<^verbatim>\<open>message?.trim()\<close>.
\<close>

theorem send_message_without_payload:
  "session_after [Connection sock_a] sock_a = Inr (Some \<lparr>username = None, currentRoom = None\<rparr>) \<and>
   send_message sock_a NoPayload (js ''id-1'') 2 (connection sock_a init_state) = Inl TypeError \<and>
   exec [Connection sock_a, SendMessage sock_a NoPayload (js ''id-1'') 2] init_state = Inl TypeError \<and>
   sockets orphan_state sock_a = Some alice_data \<and>
   currentRoom alice_data = Some lobby \<and>
   rooms orphan_state lobby = None \<and>
   send_message sock_a (Payload MessageOther) (js ''id-1'') 2 orphan_state = Inl TypeError"
  by (simp add: session_after_def handler_defs orphan_state_def alice_data_def)

text \<open>
  What holds when the event carries a payload whose \<^verbatim>\<open>message\<close> is a string or absent:
  in each case of the claim the handler returns the state as it was and makes no call
  into the transport. A connection with no current room is spared the second error too,
  since \<^verbatim>\<open>||\<close> does not evaluate its right operand.
\<close>

lemma send_message_ignored:
  assumes "sockets st c = Some ud"
    and "currentRoom ud = None \<or> msg = NoMessage \<or> (\<exists>m. msg = MessageText m \<and> trim m = [])
         \<or> (\<exists>r. currentRoom ud = Some r \<and> rooms st r = None \<and> msg \<noteq> MessageOther)"
  shows "send_message c (Payload msg) uuid now st = Inr (st, [])"
  using assms
  by (auto simp add: send_message_def split: option.splits message_field.splits)

lemma send_message_ignored_examples:
  "send_message sock_a (Payload (MessageText (js ''hi''))) (js ''id-1'') 2 (connection sock_a init_state)
     = Inr (connection sock_a init_state, []) \<and>
   send_message sock_a (Payload MessageOther) (js ''id-1'') 2 (connection sock_a init_state)
     = Inr (connection sock_a init_state, []) \<and>
   send_message sock_a (Payload NoMessage) (js ''id-1'') 2 full_state = Inr (full_state, []) \<and>
   send_message sock_a (Payload (MessageText (js ''   ''))) (js ''id-1'') 2 full_state
     = Inr (full_state, []) \<and>
   send_message sock_a (Payload (MessageText (js ''hi''))) (js ''id-1'') 2 orphan_state
     = Inr (orphan_state, [])"
  by (simp add: handler_defs full_state_def orphan_state_def alice_data_def js_def trim_def is_ws_def)

subsection \<open>C5: what a join emits\<close>

text \<open>
  Claim C5. A \<^verbatim>\<open>join_room\<close> emits exactly two events, in this order: \<^verbatim>\<open>user_joined\<close>
  to the joining socket alone, with the resolved display name (the one stored on the
  socket) and the number of members of the room after the join; and \<^verbatim>\<open>user_activity\<close>
  of type join to the room except the joining socket, with the message
  \<^verbatim>\<open><name> joined the chat\<close> and the same count.
\<close>

theorem join_room_emits:
  assumes "sockets st c = Some ud"
  shows "\<exists>rm ud' name.
           rooms (fst (join_room c d rnd now st)) (roomId_of d) = Some rm \<and>
           sockets (fst (join_room c d rnd now st)) c = Some ud' \<and>
           username ud' = Some name \<and>
           name = resolve_username (customUsername_of d) rnd \<and>
           emitted (snd (join_room c d rnd now st)) =
             [(ToSocket c, user_joined name (fcard (users rm))),
              (ToRoomExcept (roomId_of d) c,
               user_activity JoinActivity (name @ js '' joined the chat'') (fcard (users rm)))]"
  by (simp add: join_room_state [OF assms] join_room_effects [OF assms]
      emitted_append emitted_leave_previous)

theorem join_room_emits_witness:
  "sockets full_state sock_b = None \<and>
   sockets (connection sock_b full_state) sock_b = Some \<lparr>username = None, currentRoom = None\<rparr> \<and>
   emitted (snd (join_room sock_b (JoinObject lobby (Some (js ''Bob''))) rnd_sample 3
                   (connection sock_b full_state))) =
     [(ToSocket sock_b, user_joined (js ''Bob'') 2),
      (ToRoomExcept lobby sock_b, user_activity JoinActivity (js ''Bob joined the chat'') 2)]"
  using join_room_emits [of "connection sock_b full_state" sock_b
      "\<lparr>username = None, currentRoom = None\<rparr>" "JoinObject lobby (Some (js ''Bob''))" rnd_sample 3]
  by (simp add: full_state_def full_room_def handler_defs Let_def string_defs fcard_finsert_if)

subsection \<open>C6: the generated name\<close>

text \<open>
  Claim C6 says that the generated name is the prefix followed by exactly four lowercase
  alphanumeric characters. \<^verbatim>\<open>generateUsername\<close> takes \<^verbatim>\<open>substring(2, 6)\<close> of the
  base-36 rendering of the random number and does not pad the result. When
  \<^verbatim>\<open>Math.random()\<close> returns \<open>0.5\<close> the rendering is \<^verbatim>\<open>0.i\<close>, with one digit after
  the point, and the socket that joins without a custom name is called \<^verbatim>\<open>Anon-i\<close>:
  one character after the prefix.
\<close>

theorem generated_name_short:
  "base36_fraction (js ''0.i'') \<and>
   customUsername_of (RoomIdOnly lobby) = None \<and>
   map_option username
     (sockets (fst (join_room sock_a (RoomIdOnly lobby) (js ''0.i'') 1 (connection sock_a init_state))) sock_a)
     = Some (Some (js ''Anon-i'')) \<and>
   length (js ''Anon-i'') \<noteq> length (js ''Anon-'') + 4"
  by (simp add: handler_defs Let_def string_defs is_lower_alnum_def)

text \<open>
  What holds for every rendering: when the custom name is absent or empty after
  trimming, the stored name is \<^verbatim>\<open>Anon-\<close> followed by the characters at positions 2 to 5
  of the rendering. These are at most four, exactly four if and only if the rendering has
  at least six characters, and all lowercase alphanumeric when the rendering has the
  shape that radix 36 gives a number below one.
\<close>

lemma generated_name_format:
  assumes "sockets st c = Some ud"
    and "customUsername_of d = None \<or> (\<exists>u. customUsername_of d = Some u \<and> trim u = [])"
  shows "map_option username (sockets (fst (join_room c d rnd now st)) c)
           = Some (Some (js ''Anon-'' @ take 4 (drop 2 rnd))) \<and>
         length (take 4 (drop 2 rnd)) \<le> 4 \<and>
         (length (take 4 (drop 2 rnd)) = 4 \<longleftrightarrow> 6 \<le> length rnd) \<and>
         (base36_fraction rnd \<longrightarrow> list_all is_lower_alnum (take 4 (drop 2 rnd)))"
proof -
  from assms(2) have "resolve_username (customUsername_of d) rnd = generateUsername rnd"
    by (auto simp add: resolve_username_def)
  then have "map_option username (sockets (fst (join_room c d rnd now st)) c)
           = Some (Some (js ''Anon-'' @ take 4 (drop 2 rnd)))"
    by (simp add: join_room_state [OF assms(1)] generateUsername_eq)
  moreover have "length (take 4 (drop 2 rnd)) = 4 \<longleftrightarrow> 6 \<le> length rnd" by auto
  ultimately show ?thesis by (simp add: base36_suffix)
qed

lemma generated_name_format_example:
  "sockets (connection sock_a init_state) sock_a = Some \<lparr>username = None, currentRoom = None\<rparr> \<and>
   customUsername_of (JoinObject lobby (Some (js ''  ''))) = Some (js ''  '') \<and>
   trim (js ''  '') = [] \<and>
   base36_fraction rnd_sample \<and>
   map_option username
     (sockets (fst (join_room sock_a (JoinObject lobby (Some (js ''  ''))) rnd_sample 1
                      (connection sock_a init_state))) sock_a)
     = Some (Some (js ''Anon-k3x9'')) \<and>
   list_all is_lower_alnum (js ''k3x9'')"
proof -
  have a: "sockets (connection sock_a init_state) sock_a = Some \<lparr>username = None, currentRoom = None\<rparr>"
    by (simp add: connection_def)
  have b: "customUsername_of (JoinObject lobby (Some (js ''  ''))) = Some (js ''  '')"
    by (simp add: customUsername_of_def)
  have t: "trim (js ''  '') = []" by (simp add: js_def trim_def is_ws_def)
  have h: "base36_fraction rnd_sample"
    by (simp add: rnd_sample_def js_def is_lower_alnum_def)
  from b t have bt: "customUsername_of (JoinObject lobby (Some (js ''  ''))) = None \<or>
      (\<exists>u. customUsername_of (JoinObject lobby (Some (js ''  ''))) = Some u \<and> trim u = [])"
    by simp
  show ?thesis
    using a b t h generated_name_format [OF a bt, of rnd_sample 1]
    by (simp add: rnd_sample_def js_def)
qed

subsection \<open>C7: a custom name is trimmed and cut to 20 characters\<close>

text \<open>
  Claim C7. When the custom name is non-empty after trimming, the name stored on the
  socket is the trimmed custom name cut to its first 20 code units; it is never longer
  than 20.
\<close>

theorem join_room_custom_username:
  assumes "sockets st c = Some ud" and "customUsername_of d = Some u" and "trim u \<noteq> []"
  shows "map_option username (sockets (fst (join_room c d rnd now st)) c)
           = Some (Some (take 20 (trim u))) \<and>
         length (take 20 (trim u)) \<le> 20"
proof -
  from \<open>trim u \<noteq> []\<close> have "u \<noteq> []" by (auto simp add: trim_def)
  with assms show ?thesis
    by (simp add: join_room_state [OF assms(1)] resolve_username_def substring_0)
qed

theorem join_room_custom_username_witness:
  "sockets (connection sock_a init_state) sock_a = Some \<lparr>username = None, currentRoom = None\<rparr> \<and>
   customUsername_of (JoinObject lobby (Some (js ''  Bartholomew the Magnificent '')))
     = Some (js ''  Bartholomew the Magnificent '') \<and>
   trim (js ''  Bartholomew the Magnificent '') = js ''Bartholomew the Magnificent'' \<and>
   map_option username
     (sockets (fst (join_room sock_a (JoinObject lobby (Some (js ''  Bartholomew the Magnificent '')))
                      rnd_sample 1 (connection sock_a init_state))) sock_a)
     = Some (Some (js ''Bartholomew the Magn''))"
proof -
  have a: "sockets (connection sock_a init_state) sock_a = Some \<lparr>username = None, currentRoom = None\<rparr>"
    by (simp add: connection_def)
  have b: "customUsername_of (JoinObject lobby (Some (js ''  Bartholomew the Magnificent '')))
     = Some (js ''  Bartholomew the Magnificent '')"
    by (simp add: customUsername_of_def)
  have t: "trim (js ''  Bartholomew the Magnificent '') = js ''Bartholomew the Magnificent''"
    by (simp add: js_def trim_def is_ws_def)
  then have n: "trim (js ''  Bartholomew the Magnificent '') \<noteq> []" by (simp add: js_def)
  show ?thesis
    using a b t join_room_custom_username [OF a b n, of rnd_sample 1]
    by (simp add: js_def)
qed

subsection \<open>C8: joining the room one is already in\<close>

text \<open>
  Claim C8 says that a socket that joins the room it is in is first removed from the
  room and then added again, the full sequence of leave and rejoin. For the room named by
  the empty string the leave block is skipped, by the test that C1 is about: the socket
  below is a member of the room \<^verbatim>\<open>""\<close> and records it, and when it joins it again,
  nothing is removed, \<^verbatim>\<open>socket.leave\<close> is not called, and the handler goes on to the
  join and the two emits.
\<close>

theorem rejoin_empty_room_skips_leave:
  "exec in_empty_room init_state = Inr empty_room_state \<and>
   sockets empty_room_state sock_a =
     Some \<lparr>username = Some (js ''Anon-k3x9''), currentRoom = Some []\<rparr> \<and>
   member_of sock_a [] empty_room_state \<and>
   leave_previous sock_a (Some []) (rooms empty_room_state) = (rooms empty_room_state, []) \<and>
   snd (join_room sock_a (RoomIdOnly []) rnd_sample 2 empty_room_state) =
     [SocketJoin sock_a [],
      Emit (ToSocket sock_a) (user_joined (js ''Anon-k3x9'') 1),
      Emit (ToRoomExcept [] sock_a)
        (user_activity JoinActivity (js ''Anon-k3x9 joined the chat'') 1)]"
  by (simp add: in_empty_room_def empty_room_state_def member_of_def handler_defs Let_def
      string_defs rnd_sample_def fcard_finsert_if)

text \<open>
  What holds for a room with a non-empty identifier that the socket records and is a
  member of: the leave block removes the socket from the membership set and calls
  \<^verbatim>\<open>socket.leave\<close>, the join adds it again, the set after the event is the set before
  it, and both emitted events carry the member count from before the event.
\<close>

lemma rejoin_same_room:
  assumes "sockets st c = Some ud" and "currentRoom ud = Some (roomId_of d)"
    and "roomId_of d \<noteq> []" and "rooms st (roomId_of d) = Some rm" and "c |\<in>| users rm"
  shows "leave_previous c (currentRoom ud) (rooms st) =
           ((rooms st)(roomId_of d \<mapsto> rm\<lparr>users := users rm |-| {|c|}\<rparr>),
            [SocketLeave c (roomId_of d)]) \<and>
         c |\<notin>| users rm |-| {|c|} \<and>
         map_option users (rooms (fst (join_room c d rnd now st)) (roomId_of d)) = Some (users rm) \<and>
         snd (join_room c d rnd now st) =
           [SocketLeave c (roomId_of d), SocketJoin c (roomId_of d),
            Emit (ToSocket c)
              (user_joined (resolve_username (customUsername_of d) rnd) (fcard (users rm))),
            Emit (ToRoomExcept (roomId_of d) c)
              (user_activity JoinActivity
                 (resolve_username (customUsername_of d) rnd @ js '' joined the chat'')
                 (fcard (users rm)))]"
proof -
  have l: "leave_previous c (currentRoom ud) (rooms st) =
           ((rooms st)(roomId_of d \<mapsto> rm\<lparr>users := users rm |-| {|c|}\<rparr>),
            [SocketLeave c (roomId_of d)])"
    using assms(2-4) by (simp add: leave_previous_def)
  have u: "users (joined_room c (roomId_of d) now ud st) = users rm"
    using assms(5) by (auto simp add: joined_room_def Let_def getOrCreateRoom_snd l)
  show ?thesis
    by (simp add: l u join_room_state [OF assms(1)] join_room_effects [OF assms(1)])
qed

text \<open>For every room, with or without the leave, the membership set and the reported
  count are those from before the event.\<close>

lemma rejoin_keeps_members:
  assumes "sockets st c = Some ud" and "rooms st (roomId_of d) = Some rm" and "c |\<in>| users rm"
  shows "map_option users (rooms (fst (join_room c d rnd now st)) (roomId_of d)) = Some (users rm) \<and>
         emitted (snd (join_room c d rnd now st)) =
           [(ToSocket c, user_joined (resolve_username (customUsername_of d) rnd) (fcard (users rm))),
            (ToRoomExcept (roomId_of d) c,
             user_activity JoinActivity
               (resolve_username (customUsername_of d) rnd @ js '' joined the chat'')
               (fcard (users rm)))]"
proof -
  have u: "users (joined_room c (roomId_of d) now ud st) = users rm"
    using assms(2,3)
    by (auto simp add: joined_room_def Let_def getOrCreateRoom_snd leave_previous_rooms)
  show ?thesis
    by (simp add: join_room_state [OF assms(1)] join_room_effects [OF assms(1)] u
        emitted_append emitted_leave_previous)
qed

subsection \<open>C9: a room emptied by a switch\<close>

text \<open>
  Claim C9 says that a room whose last member switched to another room stays in the
  store until some connection joins it again and later disconnects. A timer set by an
  earlier disconnect is not cancelled by a join: in the trace below the lobby is emptied
  by a disconnect (the timer is set), joined by a second socket while the timer is
  pending, and emptied again when that socket switches to another room. The switch sets
  no timer, yet when the pending one fires the lobby is deleted, with no join to it in
  between.
\<close>

theorem switch_then_pending_reap_counterexample:
  "room_after (butlast switch_trace) lobby =
     Inr (Some \<lparr>users = {|sock_b|}, messages = [], createdAt = 1\<rparr>) \<and>
   timers_after (butlast switch_trace) = Inr [lobby] \<and>
   last switch_trace = JoinRoom sock_b (RoomIdOnly den) rnd_sample 3 \<and>
   room_after switch_trace lobby = Inr (Some \<lparr>users = {||}, messages = [], createdAt = 1\<rparr>) \<and>
   timers_after switch_trace = Inr [lobby] \<and>
   room_after (switch_trace @ [TimerFires]) lobby = Inr None"
  by (simp add: switch_trace_def room_after_def timers_after_def handler_defs Let_def)

text \<open>
  Claim C9, amended. \<^verbatim>\<open>join_room\<close> never sets a timer, and no event but a disconnect
  adds one to the queue. When, in a state the server can reach, the last member of a room
  switches to a different room, the room is left in the store with no member. If no reap
  set by an earlier disconnect is pending for it, the room stays in the store, with no
  timer pending for it, until some connection joins it again and later disconnects; as
  long as nobody joins it, it stays empty. If such a reap is pending and nobody joins the
  room, the room is gone from the store once no reap for it is pending any more.
\<close>

theorem switch_schedules_no_reap:
  assumes "exec pre init_state = Inr st"
    and "sockets st c = Some ud" and "currentRoom ud = Some R" and "R \<noteq> []"
    and "rooms st R = Some rm" and "users rm = {|c|}"
    and "roomId_of d \<noteq> R"
  shows "timers (fst (join_room cj dj rndj nowj stj)) = timers stj \<and>
         ((\<forall>c'. e \<noteq> Disconnect c') \<and> step e stj = Inr (stk, out) \<longrightarrow>
            timers stk = timers stj \<or> (e = TimerFires \<and> timers stk = tl (timers stj))) \<and>
         map_option users (rooms (fst (join_room c d rnd now st)) R) = Some {||} \<and>
         (R \<notin> set (timers st) \<and> no_leaver R [] es \<and>
          exec es (fst (join_room c d rnd now st)) = Inr st' \<longrightarrow>
            rooms st' R \<noteq> None \<and> R \<notin> set (timers st')) \<and>
         (R \<notin> set (timers st) \<and> (\<forall>e\<in>set es. \<not> joins R e) \<and>
          exec es (fst (join_room c d rnd now st)) = Inr st' \<longrightarrow>
            map_option users (rooms st' R) = Some {||}) \<and>
         (R \<in> set (timers st) \<and> (\<forall>e\<in>set es. \<not> joins R e) \<and>
          exec es (fst (join_room c d rnd now st)) = Inr st' \<and> R \<notin> set (timers st') \<longrightarrow>
            rooms st' R = None)"
proof -
  let ?st1 = "fst (join_room c d rnd now st)"
  have inv: "session_inv st"
    using session_inv_init assms(1) by (rule session_inv_exec)
  note sw = switch_state [OF inv assms(2-7), of rnd now]
  have a: "timers (fst (join_room cj dj rndj nowj stj)) = timers stj"
    by (rule join_room_timers)
  have b: "(\<forall>c'. e \<noteq> Disconnect c') \<and> step e stj = Inr (stk, out) \<longrightarrow>
            timers stk = timers stj \<or> (e = TimerFires \<and> timers stk = tl (timers stj))"
    using timers_step_exact by blast
  have u: "map_option users (rooms ?st1 R) = Some {||}"
    by (simp add: sw(1))
  have k: "rooms st' R \<noteq> None \<and> R \<notin> set (timers st')"
    if "R \<notin> set (timers st)" "no_leaver R [] es" "exec es ?st1 = Inr st'"
  proof -
    from that(1) sw have "kept_room R [] ?st1"
      by (auto simp add: kept_room_def)
    then show ?thesis using that(2,3) by (rule kept_room_run)
  qed
  have i: "map_option users (rooms st' R) = Some {||}"
    if "R \<notin> set (timers st)" "\<forall>e\<in>set es. \<not> joins R e" "exec es ?st1 = Inr st'"
  proof -
    from that(1) sw have "idle_room R ?st1"
      by (auto simp add: idle_room_def)
    then have "idle_room R st'" using that(2,3) by (rule idle_room_exec)
    then show ?thesis by (auto simp add: idle_room_def)
  qed
  have g: "rooms st' R = None"
    if "R \<in> set (timers st)" "\<forall>e\<in>set es. \<not> joins R e" "exec es ?st1 = Inr st'"
      "R \<notin> set (timers st')"
  proof -
    from that(1) sw have "doomed_room R ?st1"
      by (auto simp add: doomed_room_def)
    then have "doomed_room R st'" using that(2,3) by (rule doomed_room_exec)
    with that(4) show ?thesis by (auto simp add: doomed_room_def)
  qed
  from a b u k i g show ?thesis by blast
qed

theorem switch_schedules_no_reap_witness:
  "exec alone_in_lobby init_state = Inr alone_state \<and>
   sockets alone_state sock_a = Some \<lparr>username = Some (js ''Anon-k3x9''), currentRoom = Some lobby\<rparr> \<and>
   rooms alone_state lobby = Some \<lparr>users = {|sock_a|}, messages = [], createdAt = 1\<rparr> \<and>
   roomId_of (RoomIdOnly den) \<noteq> lobby \<and>
   lobby \<notin> set (timers alone_state) \<and>
   step TimerFires pending_state = Inr (pending_state\<lparr>rooms := Map.empty, timers := [lobby]\<rparr>, []) \<and>
   timers (pending_state\<lparr>rooms := Map.empty, timers := [lobby]\<rparr>) = tl (timers pending_state) \<and>
   no_leaver lobby [] after_switch \<and>
   (case exec after_switch (fst (join_room sock_a (RoomIdOnly den) rnd_sample 2 alone_state)) of
      Inl err \<Rightarrow> False
    | Inr st' \<Rightarrow> member_of sock_a lobby st' \<and> lobby \<notin> set (timers st')) \<and>
   filter (joins lobby) (butlast after_switch) = [] \<and>
   (case exec (butlast after_switch) (fst (join_room sock_a (RoomIdOnly den) rnd_sample 2 alone_state)) of
      Inl err \<Rightarrow> False
    | Inr st' \<Rightarrow> map_option users (rooms st' lobby) = Some {||}) \<and>
   exec (butlast switch_trace) init_state = Inr pending_switch_state \<and>
   lobby \<in> set (timers pending_switch_state) \<and>
   (case exec [TimerFires] (fst (join_room sock_b (RoomIdOnly den) rnd_sample 3 pending_switch_state)) of
      Inl err \<Rightarrow> False
    | Inr st' \<Rightarrow> lobby \<notin> set (timers st') \<and> rooms st' lobby = None)"
proof -
  let ?ud = "\<lparr>username = Some (js ''Anon-k3x9''), currentRoom = Some lobby\<rparr>"
  let ?rm = "\<lparr>users = {|sock_a|}, messages = [], createdAt = 1\<rparr>"
  let ?rb = "\<lparr>users = {|sock_b|}, messages = [], createdAt = 1\<rparr>"
  let ?s1 = "fst (join_room sock_a (RoomIdOnly den) rnd_sample 2 alone_state)"
  let ?s2 = "fst (join_room sock_b (RoomIdOnly den) rnd_sample 3 pending_switch_state)"
  have p: "exec alone_in_lobby init_state = Inr alone_state"
    by (simp add: alone_in_lobby_def alone_state_def handler_defs Let_def string_defs rnd_sample_def)
  have s: "sockets alone_state sock_a = Some ?ud" by (simp add: alone_state_def)
  have c: "currentRoom ?ud = Some lobby" by simp
  have n: "lobby \<noteq> []" by simp
  have r: "rooms alone_state lobby = Some ?rm" by (simp add: alone_state_def)
  have u: "users ?rm = {|sock_a|}" by simp
  have d: "roomId_of (RoomIdOnly den) \<noteq> lobby" by (simp add: roomId_of_def)
  have t: "lobby \<notin> set (timers alone_state)" by (simp add: alone_state_def)
  have l: "no_leaver lobby [] after_switch" by (simp add: after_switch_def roomId_of_def)
  have f: "filter (joins lobby) (butlast after_switch) = []"
    by (simp add: after_switch_def roomId_of_def)
  then have j: "\<forall>e\<in>set (butlast after_switch). \<not> joins lobby e"
    by (simp add: filter_empty_conv)
  have tf: "step TimerFires pending_state = Inr (pending_state\<lparr>rooms := Map.empty, timers := [lobby]\<rparr>, [])"
    by (simp add: pending_state_def handler_defs)
  have nd: "\<forall>c'. TimerFires \<noteq> Disconnect c'" by simp
  obtain x where x: "exec after_switch ?s1 = Inr x" and xm: "member_of sock_a lobby x"
    by (simp add: after_switch_def alone_state_def member_of_def handler_defs Let_def
        string_defs rnd_sample_def)
  obtain y where y: "exec (butlast after_switch) ?s1 = Inr y"
    by (simp add: after_switch_def alone_state_def handler_defs Let_def string_defs rnd_sample_def)
  note w1 = switch_schedules_no_reap [OF p s c n r u d,
      where cj = sock_a and dj = "RoomIdOnly den" and rndj = rnd_sample and nowj = 2
        and stj = pending_state and e = TimerFires
        and stk = "pending_state\<lparr>rooms := Map.empty, timers := [lobby]\<rparr>" and out = "[]"
        and es = after_switch and rnd = rnd_sample and now = 2 and st' = x]
  note w2 = switch_schedules_no_reap [OF p s c n r u d,
      where cj = sock_a and dj = "RoomIdOnly den" and rndj = rnd_sample and nowj = 2
        and stj = pending_state and e = TimerFires
        and stk = "pending_state\<lparr>rooms := Map.empty, timers := [lobby]\<rparr>" and out = "[]"
        and es = "butlast after_switch" and rnd = rnd_sample and now = 2 and st' = y]
  have q: "exec (butlast switch_trace) init_state = Inr pending_switch_state"
    by (simp add: switch_trace_def pending_switch_state_def handler_defs Let_def string_defs
        rnd_sample_def)
  have qs: "sockets pending_switch_state sock_b = Some ?ud" by (simp add: pending_switch_state_def)
  have qr: "rooms pending_switch_state lobby = Some ?rb" by (simp add: pending_switch_state_def)
  have qu: "users ?rb = {|sock_b|}" by simp
  have qt: "lobby \<in> set (timers pending_switch_state)" by (simp add: pending_switch_state_def)
  obtain z where z: "exec [TimerFires] ?s2 = Inr z" and zt: "lobby \<notin> set (timers z)"
    by (simp add: pending_switch_state_def handler_defs Let_def)
  note w3 = switch_schedules_no_reap [OF q qs c n qr qu d,
      where cj = sock_a and dj = "RoomIdOnly den" and rndj = rnd_sample and nowj = 2
        and stj = pending_state and e = TimerFires
        and stk = "pending_state\<lparr>rooms := Map.empty, timers := [lobby]\<rparr>" and out = "[]"
        and es = "[TimerFires]" and rnd = rnd_sample and now = 3 and st' = z]
  from w1 t l x have k: "lobby \<notin> set (timers x)" by simp
  from w2 t j y have e: "map_option users (rooms y lobby) = Some {||}" by blast
  from w3 qt z zt have g: "rooms z lobby = None" by simp
  from w1 nd tf have "timers (pending_state\<lparr>rooms := Map.empty, timers := [lobby]\<rparr>) = tl (timers pending_state)"
    by (simp add: pending_state_def)
  then show ?thesis
    using p s r d t tf l f q qt x xm k y e z zt g by simp
qed

subsection \<open>C10: disconnect when the recorded room is gone\<close>

text \<open>
  Claim C10. When the room recorded on a disconnecting socket is not in the store, the
  disconnect handler leaves the server state as it was: no room is changed, nothing is
  emitted and no timer is set. The only change of the whole event is that the socket is
  gone.
\<close>

theorem disconnect_room_absent:
  assumes "sockets st c = Some ud" and "currentRoom ud = Some r" and "rooms st r = None"
  shows "disconnect c st = (st, []) \<and>
         step (Disconnect c) st = Inr (st\<lparr>sockets := (sockets st)(c := None)\<rparr>, [])"
  using assms by (auto simp add: disconnect_def)

theorem disconnect_room_absent_witness:
  "sockets orphan_state sock_a = Some alice_data \<and> currentRoom alice_data = Some lobby \<and>
   rooms orphan_state lobby = None \<and>
   disconnect sock_a orphan_state = (orphan_state, []) \<and>
   step (Disconnect sock_a) orphan_state =
     Inr (orphan_state\<lparr>sockets := (sockets orphan_state)(sock_a := None)\<rparr>, [])"
proof -
  have o: "sockets orphan_state sock_a = Some alice_data" "currentRoom alice_data = Some lobby"
    "rooms orphan_state lobby = None"
    by (simp_all add: orphan_state_def alice_data_def)
  show ?thesis
    using o disconnect_room_absent [OF o]
    by simp
qed

end
